theory Spec2Isabelle
  imports Main "HOL-Library.Sublist"
begin

section \<open>The reconnecting D-Bus service of man/sd\_bus\_service\_reconnect.c\<close>

text \<open>
  The program publishes one object with one read-only property on the system bus and
  sets the connection up again whenever the bus drops it. The embedding is state
  passing: a \<open>world\<close> holds the C variables the program points into (the object, the
  \<open>sd_bus *\<close> and \<open>sd_event *\<close> variables of \<open>main\<close>), the library's bus and event-loop
  objects, \<open>errno\<close>, what was printed, and the trace of library calls.

  Return codes are C \<open>int\<close>s, modelled as \<open>int\<close>: the library returns 0, a small positive
  number, or a negated errno value, so no arithmetic here can overflow.
\<close>

subsection \<open>Data\<close>

type_synonym addr = nat
type_synonym handle = nat

text \<open>The functions the program calls; \<open>Setup\<close> names the program's own \<open>setup\<close> where it
  stands inside \<open>check(...)\<close>.\<close>

datatype fn =
    Sd_bus_detach_event | Sd_bus_close_unref | Sd_bus_new | Sd_bus_set_address
  | Sd_bus_set_bus_client | Sd_bus_negotiate_creds | Sd_bus_set_watch_bind
  | Sd_bus_set_connected_signal | Sd_bus_start | Sd_bus_add_object_vtable
  | Sd_bus_request_name_async | Sd_bus_match_signal_async | Sd_bus_attach_event
  | Sd_event_default | Sd_event_add_signal | Sd_event_loop | Sd_bus_release_name
  | Sd_bus_message_append | Sd_bus_error_setf | Sd_bus_flush_close_unrefp
  | Sd_event_unrefp | Setup

text \<open>One library call as the trace records it: the function, the handle it was given
  (or, for \<open>sd_bus_new\<close>, the handle it made) and what it returned.\<close>

datatype call = Call (fn_of: fn) (handle_of: "handle option") (result_of: int)

datatype cred = SD_BUS_CREDS_UID | SD_BUS_CREDS_EUID | SD_BUS_CREDS_EFFECTIVE_CAPS

datatype signal = SIGINT | SIGTERM

text \<open>\<open>typedef struct object { const char *example; sd_bus **bus; sd_event **event; }\<close>:
  the two pointer fields are the addresses of the variables they point to.\<close>

record object =
  example :: string
  bus :: addr
  event :: addr

text \<open>Modelled from the spec: the library's connection object (\<open>sd_bus\<close>, the spec's
  Transport Handle), which is not under src/. It carries what the spec's data model names:
  whether it is closed, the event loop it is attached to, its configuration, and the
  object registrations, name requests and match registrations made on it.\<close>

record sd_bus =
  bus_closed :: bool
  attached_to :: "handle option"
  address :: "string option"
  bus_client :: bool
  creds :: "cred list"
  watch_bind :: bool
  connected_signal :: bool
  started :: bool
  vtables :: "(string \<times> string \<times> addr) list"
  name_requests :: "string list"
  matches :: "(string \<times> string \<times> addr) list"
  released :: "string list"

text \<open>Modelled from the spec: the library's event loop object (\<open>sd_event\<close>), which is not
  under src/: the signals registered as its sources, and whether it was released.\<close>

record sd_event =
  signals :: "signal list"
  loop_released :: bool

record world =
  objects :: "addr \<Rightarrow> object"
  bus_vars :: "addr \<Rightarrow> handle option"
  event_vars :: "addr \<Rightarrow> handle option"
  buses :: "sd_bus list"
  loops :: "sd_event list"
  replies :: "addr \<Rightarrow> (string \<times> string) list"
  errors :: "addr \<Rightarrow> (string \<times> string) option"
  errno :: int
  stdout :: "(fn \<times> int) list"
  trace :: "call list"

definition EXIT_FAILURE :: int where
  "EXIT_FAILURE = 1"

text \<open>Modelled from the spec: the errno the library maps the unknown-property error name
  to (\<open>EBADR\<close>); the table is not under src/.\<close>

definition EBADR :: int where
  "EBADR = 53"

definition SD_BUS_ERROR_UNKNOWN_PROPERTY :: string where
  "SD_BUS_ERROR_UNKNOWN_PROPERTY = ''org.freedesktop.DBus.Error.UnknownProperty''"

subsection \<open>The library, as far as the program uses it\<close>

text \<open>
  The return codes of the library are the environment's: \<open>env\<close> lists them in call order,
  the \<open>k\<close>-th library call of a run returns the \<open>k\<close>-th entry, and a call beyond the end of
  the list returns 0. Every library call appends itself to the trace, so the length of
  the trace is the index of the next call.
\<close>

definition result_at :: "int list \<Rightarrow> nat \<Rightarrow> int" where
  "result_at env k = (if k < length env then env ! k else 0)"

text \<open>Modelled from the spec: a library call that returns a status. A negative status is
  a failure and leaves the library's state as it was; otherwise the call has its effect.\<close>

definition lib_call ::
  "int list \<Rightarrow> fn \<Rightarrow> handle option \<Rightarrow> (world \<Rightarrow> world) \<Rightarrow> world \<Rightarrow> int \<times> world" where
  "lib_call env f h eff w =
     (let r = result_at env (length (trace w));
          w' = w\<lparr>trace := trace w @ [Call f h r]\<rparr>
      in (r, if r < 0 then w' else eff w'))"

text \<open>An update of the bus object behind a handle; a null pointer or a handle that names
  no bus object changes nothing.\<close>

definition on_bus :: "handle option \<Rightarrow> (sd_bus \<Rightarrow> sd_bus) \<Rightarrow> world \<Rightarrow> world" where
  "on_bus h f w =
     (case h of
        None \<Rightarrow> w
      | Some k \<Rightarrow> w\<lparr>buses := (buses w)[k := f (buses w ! k)]\<rparr>)"

definition on_loop :: "handle option \<Rightarrow> (sd_event \<Rightarrow> sd_event) \<Rightarrow> world \<Rightarrow> world" where
  "on_loop h f w =
     (case h of
        None \<Rightarrow> w
      | Some k \<Rightarrow> w\<lparr>loops := (loops w)[k := f (loops w ! k)]\<rparr>)"

text \<open>Modelled from the spec: a bus object as \<open>sd_bus_new\<close> makes it: open, unattached,
  unconfigured, with nothing registered on it.\<close>

definition fresh_bus :: sd_bus where
  "fresh_bus =
     \<lparr>bus_closed = False, attached_to = None, address = None, bus_client = False,
      creds = [], watch_bind = False, connected_signal = False, started = False,
      vtables = [], name_requests = [], matches = [], released = []\<rparr>"

text \<open>Modelled from the spec: \<open>sd_bus_detach_event\<close>, not under src/.\<close>

definition sd_bus_detach_event :: "int list \<Rightarrow> handle option \<Rightarrow> world \<Rightarrow> int \<times> world" where
  "sd_bus_detach_event env h =
     lib_call env Sd_bus_detach_event h (on_bus h (\<lambda>b. b\<lparr>attached_to := None\<rparr>))"

text \<open>Modelled from the spec: \<open>sd_bus_close_unref\<close>, not under src/: it closes the
  connection and returns the null pointer. It returns no status; the trace records 0.\<close>

definition sd_bus_close_unref ::
  "int list \<Rightarrow> handle option \<Rightarrow> world \<Rightarrow> handle option \<times> world" where
  "sd_bus_close_unref env h w =
     (None, on_bus h (\<lambda>b. b\<lparr>bus_closed := True\<rparr>)
              (w\<lparr>trace := trace w @ [Call Sd_bus_close_unref h 0]\<rparr>))"

text \<open>Modelled from the spec: \<open>sd_bus_new\<close>, not under src/: on success it makes a new
  bus object and stores its handle in the variable \<open>ret\<close> points to.\<close>

definition sd_bus_new :: "int list \<Rightarrow> addr \<Rightarrow> world \<Rightarrow> int \<times> world" where
  "sd_bus_new env ret w =
     (let r = result_at env (length (trace w)); k = length (buses w)
      in if r < 0 then (r, w\<lparr>trace := trace w @ [Call Sd_bus_new None r]\<rparr>)
         else (r, w\<lparr>trace := trace w @ [Call Sd_bus_new (Some k) r],
                     buses := buses w @ [fresh_bus],
                     bus_vars := (bus_vars w)(ret := Some k)\<rparr>))"

text \<open>Modelled from the spec: the configuration calls, not under src/.\<close>

definition sd_bus_set_address ::
  "int list \<Rightarrow> handle option \<Rightarrow> string \<Rightarrow> world \<Rightarrow> int \<times> world" where
  "sd_bus_set_address env h a =
     lib_call env Sd_bus_set_address h (on_bus h (\<lambda>b. b\<lparr>address := Some a\<rparr>))"

definition sd_bus_set_bus_client ::
  "int list \<Rightarrow> handle option \<Rightarrow> bool \<Rightarrow> world \<Rightarrow> int \<times> world" where
  "sd_bus_set_bus_client env h v =
     lib_call env Sd_bus_set_bus_client h (on_bus h (\<lambda>b. b\<lparr>bus_client := v\<rparr>))"

definition sd_bus_negotiate_creds ::
  "int list \<Rightarrow> handle option \<Rightarrow> bool \<Rightarrow> cred list \<Rightarrow> world \<Rightarrow> int \<times> world" where
  "sd_bus_negotiate_creds env h v flags =
     lib_call env Sd_bus_negotiate_creds h
       (on_bus h (\<lambda>b. b\<lparr>creds := (if v then List.union (creds b) flags
                                    else filter (\<lambda>c. c \<notin> set flags) (creds b))\<rparr>))"

definition sd_bus_set_watch_bind ::
  "int list \<Rightarrow> handle option \<Rightarrow> bool \<Rightarrow> world \<Rightarrow> int \<times> world" where
  "sd_bus_set_watch_bind env h v =
     lib_call env Sd_bus_set_watch_bind h (on_bus h (\<lambda>b. b\<lparr>watch_bind := v\<rparr>))"

definition sd_bus_set_connected_signal ::
  "int list \<Rightarrow> handle option \<Rightarrow> bool \<Rightarrow> world \<Rightarrow> int \<times> world" where
  "sd_bus_set_connected_signal env h v =
     lib_call env Sd_bus_set_connected_signal h (on_bus h (\<lambda>b. b\<lparr>connected_signal := v\<rparr>))"

definition sd_bus_start :: "int list \<Rightarrow> handle option \<Rightarrow> world \<Rightarrow> int \<times> world" where
  "sd_bus_start env h =
     lib_call env Sd_bus_start h (on_bus h (\<lambda>b. b\<lparr>started := True\<rparr>))"

text \<open>Modelled from the spec: the registrations, not under src/. Each adds one entry to
  the bus object it is made on: an object registration (path, interface, userdata), a name
  request, a match registration (interface, member, userdata of the callback).\<close>

definition sd_bus_add_object_vtable ::
  "int list \<Rightarrow> handle option \<Rightarrow> string \<Rightarrow> string \<Rightarrow> addr \<Rightarrow> world \<Rightarrow> int \<times> world" where
  "sd_bus_add_object_vtable env h path interface userdata =
     lib_call env Sd_bus_add_object_vtable h
       (on_bus h (\<lambda>b. b\<lparr>vtables := vtables b @ [(path, interface, userdata)]\<rparr>))"

definition sd_bus_request_name_async ::
  "int list \<Rightarrow> handle option \<Rightarrow> string \<Rightarrow> world \<Rightarrow> int \<times> world" where
  "sd_bus_request_name_async env h name =
     lib_call env Sd_bus_request_name_async h
       (on_bus h (\<lambda>b. b\<lparr>name_requests := name_requests b @ [name]\<rparr>))"

definition sd_bus_match_signal_async ::
  "int list \<Rightarrow> handle option \<Rightarrow> string \<Rightarrow> string \<Rightarrow> addr \<Rightarrow> world \<Rightarrow> int \<times> world" where
  "sd_bus_match_signal_async env h interface member userdata =
     lib_call env Sd_bus_match_signal_async h
       (on_bus h (\<lambda>b. b\<lparr>matches := matches b @ [(interface, member, userdata)]\<rparr>))"

text \<open>Modelled from the spec: \<open>sd_bus_attach_event\<close>, not under src/.\<close>

definition sd_bus_attach_event ::
  "int list \<Rightarrow> handle option \<Rightarrow> handle option \<Rightarrow> world \<Rightarrow> int \<times> world" where
  "sd_bus_attach_event env h e =
     lib_call env Sd_bus_attach_event h (on_bus h (\<lambda>b. b\<lparr>attached_to := e\<rparr>))"

subsection \<open>The \<open>check\<close> macro\<close>

text \<open>
  \<open>check(x)\<close> evaluates \<open>x\<close>, sets \<open>errno\<close> to \<open>-x\<close> when the result is negative and to 0
  otherwise, prints the expression with the message of \<open>errno\<close>, and on a negative result
  returns \<open>EXIT_FAILURE\<close> from the enclosing function. A statement of a function body
  yields \<open>Inl r\<close> when the function returns \<open>r\<close> there and \<open>Inr ()\<close> when control goes on.
\<close>

definition check :: "fn \<Rightarrow> (world \<Rightarrow> int \<times> world) \<Rightarrow> world \<Rightarrow> (int + unit) \<times> world" where
  "check x e w =
     (let (r, w1) = e w;
          w2 = w1\<lparr>errno := (if r < 0 then - r else 0)\<rparr>;
          w3 = w2\<lparr>stdout := stdout w2 @ [(x, errno w2)]\<rparr>
      in if r < 0 then (Inl EXIT_FAILURE, w3) else (Inr (), w3))"

text \<open>A run of \<open>check(...)\<close> statements one after the other.\<close>

fun checks :: "(fn \<times> (world \<Rightarrow> int \<times> world)) list \<Rightarrow> world \<Rightarrow> (int + unit) \<times> world" where
  "checks [] w = (Inr (), w)"
| "checks ((x, e) # rest) w =
     (case check x e w of
        (Inl r, w') \<Rightarrow> (Inl r, w')
      | (Inr _, w') \<Rightarrow> checks rest w')"

subsection \<open>\<open>setup\<close> and \<open>on_disconnect\<close>\<close>

text \<open>\<open>*o->bus\<close> and \<open>*o->event\<close>, read from the world.\<close>

definition deref_bus :: "addr \<Rightarrow> world \<Rightarrow> handle option" where
  "deref_bus oa w = bus_vars w (bus (objects w oa))"

definition deref_event :: "addr \<Rightarrow> world \<Rightarrow> handle option" where
  "deref_event oa w = event_vars w (event (objects w oa))"

text \<open>The block \<open>if (*o->bus) { check(sd_bus_detach_event(*o->bus));
  *o->bus = sd_bus_close_unref(*o->bus); }\<close> at the head of \<open>setup\<close>.\<close>

definition teardown :: "int list \<Rightarrow> addr \<Rightarrow> world \<Rightarrow> (int + unit) \<times> world" where
  "teardown env oa w =
     (case deref_bus oa w of
        None \<Rightarrow> (Inr (), w)
      | Some h \<Rightarrow>
          (case check Sd_bus_detach_event (sd_bus_detach_event env (deref_bus oa w)) w of
             (Inl r, w1) \<Rightarrow> (Inl r, w1)
           | (Inr _, w1) \<Rightarrow>
               (let (p, w2) = sd_bus_close_unref env (deref_bus oa w1) w1
                in (Inr (), w2\<lparr>bus_vars := (bus_vars w2)(bus (objects w2 oa) := p)\<rparr>))))"

text \<open>The checked statements of \<open>setup\<close> after that block, in the order of the source.\<close>

definition setup_steps :: "int list \<Rightarrow> addr \<Rightarrow> (fn \<times> (world \<Rightarrow> int \<times> world)) list" where
  "setup_steps env oa =
     [(Sd_bus_new, \<lambda>w. sd_bus_new env (bus (objects w oa)) w),
      (Sd_bus_set_address,
         \<lambda>w. sd_bus_set_address env (deref_bus oa w) ''unix:path=/run/dbus/system_bus_socket'' w),
      (Sd_bus_set_bus_client, \<lambda>w. sd_bus_set_bus_client env (deref_bus oa w) True w),
      (Sd_bus_negotiate_creds,
         \<lambda>w. sd_bus_negotiate_creds env (deref_bus oa w) True
                [SD_BUS_CREDS_UID, SD_BUS_CREDS_EUID, SD_BUS_CREDS_EFFECTIVE_CAPS] w),
      (Sd_bus_set_watch_bind, \<lambda>w. sd_bus_set_watch_bind env (deref_bus oa w) True w),
      (Sd_bus_set_connected_signal,
         \<lambda>w. sd_bus_set_connected_signal env (deref_bus oa w) True w),
      (Sd_bus_start, \<lambda>w. sd_bus_start env (deref_bus oa w) w),
      (Sd_bus_add_object_vtable,
         \<lambda>w. sd_bus_add_object_vtable env (deref_bus oa w)
                ''/org/freedesktop/ReconnectExample'' ''org.freedesktop.ReconnectExample'' oa w),
      (Sd_bus_request_name_async,
         \<lambda>w. sd_bus_request_name_async env (deref_bus oa w)
                ''org.freedesktop.ReconnectExample'' w),
      (Sd_bus_match_signal_async,
         \<lambda>w. sd_bus_match_signal_async env (deref_bus oa w)
                ''org.freedesktop.DBus.Local'' ''Disconnected'' oa w),
      (Sd_bus_attach_event,
         \<lambda>w. sd_bus_attach_event env (deref_bus oa w) (deref_event oa w) w)]"

definition setup_c :: "int list \<Rightarrow> addr \<Rightarrow> world \<Rightarrow> int \<times> world" where
  "setup_c env oa w =
     (case teardown env oa w of
        (Inl r, w1) \<Rightarrow> (r, w1)
      | (Inr _, w1) \<Rightarrow>
          (case checks (setup_steps env oa) w1 of
             (Inl r, w2) \<Rightarrow> (r, w2)
           | (Inr _, w2) \<Rightarrow> (0, w2)))"

text \<open>(\<open>setup\<close> is a command of Isabelle, so the function is \<open>setup_c\<close> here.)\<close>

text \<open>\<open>on_disconnect\<close>: \<open>check(setup((object *)userdata)); return 0;\<close>. The message and
  the error it is handed are not used.\<close>

definition on_disconnect :: "int list \<Rightarrow> addr \<Rightarrow> world \<Rightarrow> int \<times> world" where
  "on_disconnect env userdata w =
     (case check Setup (setup_c env userdata) w of
        (Inl r, w') \<Rightarrow> (r, w')
      | (Inr _, w') \<Rightarrow> (0, w'))"

subsection \<open>The property getter\<close>

text \<open>Modelled from the spec: \<open>sd_bus_message_append\<close>, not under src/: it returns a
  status, and on success the value stands at the end of the reply under its type
  signature.\<close>

definition sd_bus_message_append ::
  "int list \<Rightarrow> addr \<Rightarrow> string \<Rightarrow> string \<Rightarrow> world \<Rightarrow> int \<times> world" where
  "sd_bus_message_append env reply sig v =
     lib_call env Sd_bus_message_append None
       (\<lambda>w. w\<lparr>replies := (replies w)(reply := replies w reply @ [(sig, v)])\<rparr>)"

text \<open>Modelled from the spec: \<open>sd_bus_error_setf\<close>, not under src/: it stores the error
  name and the formatted message in the error it is given and returns the negated errno
  that belongs to the name, so its result is always negative. The program passes one
  name only; any other is given \<open>EIO\<close>.\<close>

definition bus_error_name_to_errno :: "string \<Rightarrow> int" where
  "bus_error_name_to_errno name = (if name = SD_BUS_ERROR_UNKNOWN_PROPERTY then EBADR else 5)"

definition sd_bus_error_setf :: "addr \<Rightarrow> string \<Rightarrow> string \<Rightarrow> world \<Rightarrow> int \<times> world" where
  "sd_bus_error_setf e name message w =
     (- bus_error_name_to_errno name,
      w\<lparr>trace := trace w @ [Call Sd_bus_error_setf None (- bus_error_name_to_errno name)],
        errors := (errors w)(e := Some (name, message))\<rparr>)"

text \<open>\<open>property_get\<close>: \<open>strcmp(property, "Example") == 0\<close> is equality of the two
  strings, byte by byte. The format \<open>"Unknown property '%s'"\<close> puts the name between two
  apostrophes (the character 0x27).\<close>

definition property_get ::
  "int list \<Rightarrow> handle option \<Rightarrow> string \<Rightarrow> string \<Rightarrow> string \<Rightarrow> addr \<Rightarrow> addr \<Rightarrow> addr
     \<Rightarrow> world \<Rightarrow> int \<times> world" where
  "property_get env b path interface property reply userdata error w =
     (if property = ''Example''
      then sd_bus_message_append env reply ''s'' (example (objects w userdata)) w
      else sd_bus_error_setf error SD_BUS_ERROR_UNKNOWN_PROPERTY
             (''Unknown property '' @ [CHR 0x27] @ property @ [CHR 0x27]) w)"

subsection \<open>The event loop\<close>

text \<open>Modelled from the spec: \<open>sd_event_default\<close> and \<open>sd_event_add_signal\<close>, not under
  src/. (The flag \<open>SD_EVENT_SIGNAL_PROCMASK\<close> that the program ors into the signal number
  only blocks the signal for the process; it is left out.)\<close>

definition sd_event_default :: "int list \<Rightarrow> addr \<Rightarrow> world \<Rightarrow> int \<times> world" where
  "sd_event_default env ret w =
     (let r = result_at env (length (trace w)); k = length (loops w)
      in if r < 0 then (r, w\<lparr>trace := trace w @ [Call Sd_event_default None r]\<rparr>)
         else (r, w\<lparr>trace := trace w @ [Call Sd_event_default (Some k) r],
                     loops := loops w @ [\<lparr>signals = [], loop_released = False\<rparr>],
                     event_vars := (event_vars w)(ret := Some k)\<rparr>))"

definition sd_event_add_signal ::
  "int list \<Rightarrow> handle option \<Rightarrow> signal \<Rightarrow> world \<Rightarrow> int \<times> world" where
  "sd_event_add_signal env e s =
     lib_call env Sd_event_add_signal e (on_loop e (\<lambda>l. l\<lparr>signals := signals l @ [s]\<rparr>))"

text \<open>What the loop hands to the program while it runs: the local Disconnected signal
  of a bus, or a read of a property (path, interface, property, and the addresses of the
  reply message and of the error to fill in) that arrived on a bus.\<close>

datatype notification =
    Disconnected handle
  | Get_property handle string string string addr addr

text \<open>Modelled from the spec: the loop dispatches for a bus only while the bus is open
  and attached to this loop.\<close>

definition dispatches :: "handle option \<Rightarrow> handle \<Rightarrow> world \<Rightarrow> bool" where
  "dispatches e h w =
     (h < length (buses w) \<and> \<not> bus_closed (buses w ! h)
      \<and> e \<noteq> None \<and> attached_to (buses w ! h) = e)"

text \<open>Modelled from the spec: the delivery of one notification, not under src/. A
  Disconnected signal runs the callback of every match registered for it on that bus with
  the userdata registered (the program registers \<open>on_disconnect\<close> only); a property read
  runs the getter of every object registration of that path and interface (the program's
  table has \<open>property_get\<close> only). The status a callback returns goes to the library.\<close>

fun deliver :: "int list \<Rightarrow> handle option \<Rightarrow> notification \<Rightarrow> world \<Rightarrow> world" where
  "deliver env e (Disconnected h) w =
     (if dispatches e h w
      then foldl (\<lambda>w' (i, m, u).
                    if i = ''org.freedesktop.DBus.Local'' \<and> m = ''Disconnected''
                    then snd (on_disconnect env u w') else w')
             w (matches (buses w ! h))
      else w)"
| "deliver env e (Get_property h path interface property reply error) w =
     (if dispatches e h w
      then foldl (\<lambda>w' (p, i, u).
                    if p = path \<and> i = interface
                    then snd (property_get env (Some h) path interface property reply u error w')
                    else w')
             w (vtables (buses w ! h))
      else w)"

text \<open>Modelled from the spec: \<open>sd_event_loop\<close>, not under src/: it delivers the
  notifications that arrive, one at a time and each to completion, and then returns its
  status: non-negative when a termination signal ended it.\<close>

definition sd_event_loop ::
  "int list \<Rightarrow> handle option \<Rightarrow> notification list \<Rightarrow> world \<Rightarrow> int \<times> world" where
  "sd_event_loop env e ns w =
     lib_call env Sd_event_loop e (\<lambda>w'. w') (foldl (\<lambda>w' n. deliver env e n w') w ns)"

subsection \<open>\<open>main\<close>\<close>

text \<open>Modelled from the spec: \<open>sd_bus_release_name\<close> and the two functions of the
  \<open>_cleanup_\<close> attributes, not under src/. The latter return nothing (the trace records
  0) and do nothing on a null pointer.\<close>

definition sd_bus_release_name ::
  "int list \<Rightarrow> handle option \<Rightarrow> string \<Rightarrow> world \<Rightarrow> int \<times> world" where
  "sd_bus_release_name env h name =
     lib_call env Sd_bus_release_name h (on_bus h (\<lambda>b. b\<lparr>released := released b @ [name]\<rparr>))"

definition sd_event_unrefp :: "addr \<Rightarrow> world \<Rightarrow> world" where
  "sd_event_unrefp p w =
     (case event_vars w p of
        None \<Rightarrow> w
      | Some k \<Rightarrow> on_loop (Some k) (\<lambda>l. l\<lparr>loop_released := True\<rparr>)
                   (w\<lparr>trace := trace w @ [Call Sd_event_unrefp (Some k) 0]\<rparr>))"

definition sd_bus_flush_close_unrefp :: "addr \<Rightarrow> world \<Rightarrow> world" where
  "sd_bus_flush_close_unrefp p w =
     (case bus_vars w p of
        None \<Rightarrow> w
      | Some h \<Rightarrow> on_bus (Some h) (\<lambda>b. b\<lparr>bus_closed := True\<rparr>)
                   (w\<lparr>trace := trace w @ [Call Sd_bus_flush_close_unrefp (Some h) 0]\<rparr>))"

text \<open>The addresses of \<open>main\<close>'s three variables \<open>o\<close>, \<open>bus\<close> and \<open>event\<close> (each in the
  store of its own type).\<close>

definition main_o :: addr where
  "main_o = 0"

definition main_bus :: addr where
  "main_bus = 0"

definition main_event :: addr where
  "main_event = 0"

text \<open>The process as it starts: the library holds no object, nothing was called or
  printed.\<close>

definition process_start :: world where
  "process_start =
     \<lparr>objects = (\<lambda>_. \<lparr>example = [], bus = 0, event = 0\<rparr>),
      bus_vars = (\<lambda>_. None), event_vars = (\<lambda>_. None), buses = [], loops = [],
      replies = (\<lambda>_. []), errors = (\<lambda>_. None), errno = 0, stdout = [], trace = []\<rparr>"

text \<open>\<open>main\<close>'s declarations: \<open>bus = NULL\<close>, \<open>event = NULL\<close>,
  \<open>o = { .example = "example", .bus = &bus, .event = &event }\<close>.\<close>

definition main_entry :: world where
  "main_entry =
     process_start
       \<lparr>objects := (objects process_start)
           (main_o := \<lparr>example = ''example'', bus = main_bus, event = main_event\<rparr>),
        bus_vars := (bus_vars process_start)(main_bus := None),
        event_vars := (event_vars process_start)(main_event := None)\<rparr>"

text \<open>The checked statements of \<open>main\<close>, in the order of the source; \<open>ns\<close> is what the
  loop delivers while it runs.\<close>

definition main_steps ::
  "int list \<Rightarrow> notification list \<Rightarrow> (fn \<times> (world \<Rightarrow> int \<times> world)) list" where
  "main_steps env ns =
     [(Sd_event_default, \<lambda>w. sd_event_default env main_event w),
      (Sd_event_add_signal, \<lambda>w. sd_event_add_signal env (event_vars w main_event) SIGINT w),
      (Sd_event_add_signal, \<lambda>w. sd_event_add_signal env (event_vars w main_event) SIGTERM w),
      (Setup, \<lambda>w. setup_c env main_o w),
      (Sd_event_loop, \<lambda>w. sd_event_loop env (event_vars w main_event) ns w),
      (Sd_bus_release_name,
         \<lambda>w. sd_bus_release_name env (bus_vars w main_bus)
                ''org.freedesktop.ReconnectExample'' w)]"

text \<open>The body of \<open>main\<close> up to its \<open>return\<close>, and \<open>main\<close> with what the \<open>_cleanup_\<close>
  attributes run when the block is left, on every path: the variables are released in
  the reverse order of their declaration, \<open>event\<close> first and \<open>bus\<close> after it. The
  integer is the exit status of the process.\<close>

definition main_body :: "int list \<Rightarrow> notification list \<Rightarrow> int \<times> world" where
  "main_body env ns =
     (case checks (main_steps env ns) main_entry of
        (Inl r, w) \<Rightarrow> (r, w)
      | (Inr _, w) \<Rightarrow> (0, w))"

definition main :: "int list \<Rightarrow> notification list \<Rightarrow> int \<times> world" where
  "main env ns =
     (case main_body env ns of
        (r, w) \<Rightarrow> (r, sd_bus_flush_close_unrefp main_bus (sd_event_unrefp main_event w)))"

subsection \<open>The states the program reaches\<close>

text \<open>
  The states that the operations of the program produce from \<open>main\<close>'s entry, taken in any
  order and with any results of the library: the startup calls of \<open>main\<close>, \<open>setup\<close> on
  \<open>main\<close>'s object (called by \<open>main\<close> and by \<open>on_disconnect\<close>), the getter with that object
  as userdata, and the loop's return and the release of the name. What the loop delivers
  runs \<open>on_disconnect\<close> and the getter with the userdata registered, which is \<open>main\<close>'s
  object, so every state of a run of \<open>main\<close> is among these (\<open>deliver_reachable\<close>,
  \<open>main_body_reachable\<close> below).
\<close>

inductive reachable :: "world \<Rightarrow> bool" where
  entry: "reachable main_entry"
| event_default:
    "reachable w \<Longrightarrow> reachable (snd (check Sd_event_default (sd_event_default env main_event) w))"
| add_signal:
    "reachable w \<Longrightarrow>
     reachable (snd (check Sd_event_add_signal
                       (sd_event_add_signal env (event_vars w main_event) s) w))"
| setup_main:
    "reachable w \<Longrightarrow> reachable (snd (check Setup (setup_c env main_o) w))"
| setup_call:
    "reachable w \<Longrightarrow> reachable (snd (setup_c env main_o w))"
| getter:
    "reachable w \<Longrightarrow>
     reachable (snd (property_get env b path interface property reply main_o error w))"
| loop_returns:
    "reachable w \<Longrightarrow>
     reachable (snd (check Sd_event_loop (sd_event_loop env e []) w))"
| release_name:
    "reachable w \<Longrightarrow>
     reachable (snd (check Sd_bus_release_name
                       (sd_bus_release_name env (bus_vars w main_bus) name) w))"

subsection \<open>Notions the statements below use\<close>

text \<open>The library calls made between two states of a run.\<close>

definition new_calls :: "world \<Rightarrow> world \<Rightarrow> call list" where
  "new_calls w w' = drop (length (trace w)) (trace w')"

text \<open>The steps of \<open>setup\<close> in the order of its text, for a slot that holds a handle and
  for an empty one.\<close>

definition setup_plan :: "handle option \<Rightarrow> fn list" where
  "setup_plan slot =
     (case slot of None \<Rightarrow> [] | Some _ \<Rightarrow> [Sd_bus_detach_event, Sd_bus_close_unref])
     @ [Sd_bus_new, Sd_bus_set_address, Sd_bus_set_bus_client, Sd_bus_negotiate_creds,
        Sd_bus_set_watch_bind, Sd_bus_set_connected_signal, Sd_bus_start,
        Sd_bus_add_object_vtable, Sd_bus_request_name_async, Sd_bus_match_signal_async,
        Sd_bus_attach_event]"

text \<open>A checked expression that makes exactly one library call, the one it is named
  after, and returns that call's status.\<close>

definition logs_one :: "fn \<Rightarrow> (world \<Rightarrow> int \<times> world) \<Rightarrow> bool" where
  "logs_one x e = (\<forall>w. \<exists>h. trace (snd (e w)) = trace w @ [Call x h (fst (e w))])"

text \<open>The ordering of the spec's testable property, read on a trace: \<open>att\<close> holds the
  handles attached and not detached since, and no handle is closed (by
  \<open>sd_bus_close_unref\<close> or by \<open>sd_bus_flush_close_unrefp\<close>) while it is in \<open>att\<close>.\<close>

fun detach_before_close :: "handle option list \<Rightarrow> call list \<Rightarrow> bool" where
  "detach_before_close att [] = True"
| "detach_before_close att (Call f h r # cs) =
     (if f = Sd_bus_attach_event \<and> 0 \<le> r then detach_before_close (h # att) cs
      else if f = Sd_bus_detach_event \<and> 0 \<le> r then detach_before_close (removeAll h att) cs
      else if f = Sd_bus_close_unref \<or> f = Sd_bus_flush_close_unrefp
      then h \<notin> set att \<and> detach_before_close att cs
      else detach_before_close att cs)"

text \<open>\<open>main\<close> up to and including \<open>check(sd_event_loop(event))\<close>: it yields \<open>Inr ()\<close>
  exactly when the loop was entered and returned a non-negative status.\<close>

definition main_through_loop :: "int list \<Rightarrow> notification list \<Rightarrow> (int + unit) \<times> world" where
  "main_through_loop env ns = checks (butlast (main_steps env ns)) main_entry"

text \<open>The bus object that a complete run of the steps of \<open>setup\<close> leaves behind the new
  handle, for the object at \<open>oa\<close> and the event loop \<open>e\<close> it was attached to.\<close>

definition configured_bus :: "addr \<Rightarrow> handle option \<Rightarrow> sd_bus" where
  "configured_bus oa e =
     \<lparr>bus_closed = False, attached_to = e,
      address = Some ''unix:path=/run/dbus/system_bus_socket'', bus_client = True,
      creds = [SD_BUS_CREDS_UID, SD_BUS_CREDS_EUID, SD_BUS_CREDS_EFFECTIVE_CAPS],
      watch_bind = True, connected_signal = True, started = True,
      vtables = [(''/org/freedesktop/ReconnectExample'',
                  ''org.freedesktop.ReconnectExample'', oa)],
      name_requests = [''org.freedesktop.ReconnectExample''],
      matches = [(''org.freedesktop.DBus.Local'', ''Disconnected'', oa)],
      released = []\<rparr>"

text \<open>Three notions of the proofs about a successful run of \<open>setup\<close>. \<open>building oa w w' b\<close>:
  the state \<open>w'\<close> is \<open>w\<close> with one more bus object \<open>b\<close>, whose handle stands in the variable
  that the object at \<open>oa\<close> points to. \<open>configure\<close>: a checked step of \<open>setup\<close> that updates the
  bus object in the slot, given the update as a function of \<open>*o->event\<close>. \<open>setup_updates\<close>:
  the updates of the ten steps after \<open>sd_bus_new\<close>.\<close>

definition building :: "addr \<Rightarrow> world \<Rightarrow> world \<Rightarrow> sd_bus \<Rightarrow> bool" where
  "building oa w w' b =
     (buses w' = buses w @ [b]
      \<and> bus_vars w' = (bus_vars w)(bus (objects w oa) := Some (length (buses w)))
      \<and> objects w' = objects w \<and> event_vars w' = event_vars w \<and> loops w' = loops w)"

definition configure ::
  "int list \<Rightarrow> addr \<Rightarrow> fn \<times> (handle option \<Rightarrow> sd_bus \<Rightarrow> sd_bus) \<Rightarrow> fn \<times> (world \<Rightarrow> int \<times> world)" where
  "configure env oa fg =
     (fst fg, \<lambda>w. lib_call env (fst fg) (deref_bus oa w)
                     (on_bus (deref_bus oa w) (snd fg (deref_event oa w))) w)"

definition setup_updates :: "addr \<Rightarrow> (fn \<times> (handle option \<Rightarrow> sd_bus \<Rightarrow> sd_bus)) list" where
  "setup_updates oa =
     [(Sd_bus_set_address,
         \<lambda>e b. b\<lparr>address := Some ''unix:path=/run/dbus/system_bus_socket''\<rparr>),
      (Sd_bus_set_bus_client, \<lambda>e b. b\<lparr>bus_client := True\<rparr>),
      (Sd_bus_negotiate_creds,
         \<lambda>e b. b\<lparr>creds := List.union (creds b)
                              [SD_BUS_CREDS_UID, SD_BUS_CREDS_EUID,
                               SD_BUS_CREDS_EFFECTIVE_CAPS]\<rparr>),
      (Sd_bus_set_watch_bind, \<lambda>e b. b\<lparr>watch_bind := True\<rparr>),
      (Sd_bus_set_connected_signal, \<lambda>e b. b\<lparr>connected_signal := True\<rparr>),
      (Sd_bus_start, \<lambda>e b. b\<lparr>started := True\<rparr>),
      (Sd_bus_add_object_vtable,
         \<lambda>e b. b\<lparr>vtables := vtables b @ [(''/org/freedesktop/ReconnectExample'',
                                            ''org.freedesktop.ReconnectExample'', oa)]\<rparr>),
      (Sd_bus_request_name_async,
         \<lambda>e b. b\<lparr>name_requests := name_requests b @ [''org.freedesktop.ReconnectExample'']\<rparr>),
      (Sd_bus_match_signal_async,
         \<lambda>e b. b\<lparr>matches := matches b @ [(''org.freedesktop.DBus.Local'',
                                            ''Disconnected'', oa)]\<rparr>),
      (Sd_bus_attach_event, \<lambda>e b. b\<lparr>attached_to := e\<rparr>)]"

text \<open>The invariant of the slot: the object of \<open>main\<close> is as \<open>main\<close> initialised it, and
  every bus object that is still open is the one whose handle the \<open>bus\<close> variable holds.\<close>

definition slot_inv :: "world \<Rightarrow> bool" where
  "slot_inv w =
     (objects w main_o = \<lparr>example = ''example'', bus = main_bus, event = main_event\<rparr>
      \<and> (\<forall>k < length (buses w). \<not> bus_closed (buses w ! k) \<longrightarrow> bus_vars w main_bus = Some k))"

text \<open>The registrations on a bus object name \<open>main\<close>'s object as their userdata.\<close>

definition regs_ok :: "sd_bus \<Rightarrow> bool" where
  "regs_ok b =
     ((\<forall>r \<in> set (matches b). snd (snd r) = main_o)
      \<and> (\<forall>r \<in> set (vtables b). snd (snd r) = main_o))"

definition regs_inv :: "world \<Rightarrow> bool" where
  "regs_inv w = (\<forall>b \<in> set (buses w). regs_ok b)"

section \<open>Basic facts\<close>

subsection \<open>Library calls, \<open>check\<close> and the trace\<close>

lemma fst_lib_call [simp]: "fst (lib_call env f h eff w) = result_at env (length (trace w))"
  by (simp add: lib_call_def Let_def)

lemma snd_lib_call:
  "snd (lib_call env f h eff w) =
     (if result_at env (length (trace w)) < 0
      then w\<lparr>trace := trace w @ [Call f h (result_at env (length (trace w)))]\<rparr>
      else eff (w\<lparr>trace := trace w @ [Call f h (result_at env (length (trace w)))]\<rparr>))"
  by (simp add: lib_call_def Let_def)

lemma on_bus_fields [simp]:
  "trace (on_bus h g w) = trace w" "objects (on_bus h g w) = objects w"
  "bus_vars (on_bus h g w) = bus_vars w" "event_vars (on_bus h g w) = event_vars w"
  "loops (on_bus h g w) = loops w" "replies (on_bus h g w) = replies w"
  "errors (on_bus h g w) = errors w" "errno (on_bus h g w) = errno w"
  "stdout (on_bus h g w) = stdout w" "length (buses (on_bus h g w)) = length (buses w)"
  by (simp_all add: on_bus_def split: option.splits)

lemma on_loop_fields [simp]:
  "trace (on_loop h g w) = trace w" "objects (on_loop h g w) = objects w"
  "bus_vars (on_loop h g w) = bus_vars w" "event_vars (on_loop h g w) = event_vars w"
  "buses (on_loop h g w) = buses w" "replies (on_loop h g w) = replies w"
  "errors (on_loop h g w) = errors w" "errno (on_loop h g w) = errno w"
  "stdout (on_loop h g w) = stdout w" "length (loops (on_loop h g w)) = length (loops w)"
  by (simp_all add: on_loop_def split: option.splits)

lemma check_eq:
  "check x e w =
     (if fst (e w) < 0
      then (Inl EXIT_FAILURE, (snd (e w))\<lparr>errno := - fst (e w), stdout := stdout (snd (e w)) @ [(x, - fst (e w))]\<rparr>)
      else (Inr (), (snd (e w))\<lparr>errno := 0, stdout := stdout (snd (e w)) @ [(x, 0)]\<rparr>))"
  by (simp add: check_def Let_def split: prod.splits)

lemma check_fields [simp]:
  "trace (snd (check x e w)) = trace (snd (e w))"
  "objects (snd (check x e w)) = objects (snd (e w))"
  "bus_vars (snd (check x e w)) = bus_vars (snd (e w))"
  "event_vars (snd (check x e w)) = event_vars (snd (e w))"
  "buses (snd (check x e w)) = buses (snd (e w))"
  "loops (snd (check x e w)) = loops (snd (e w))"
  "replies (snd (check x e w)) = replies (snd (e w))"
  "errors (snd (check x e w)) = errors (snd (e w))"
  by (simp_all add: check_eq)

lemma fst_check: "fst (check x e w) = (if fst (e w) < 0 then Inl EXIT_FAILURE else Inr ())"
  by (simp add: check_eq)

lemma checks_Cons:
  "checks ((x, e) # rest) w =
     (if fst (e w) < 0 then (Inl EXIT_FAILURE, snd (check x e w))
      else checks rest (snd (check x e w)))"
  by (simp add: check_eq)

lemma checks_Inl: "checks steps w = (Inl r, w') \<Longrightarrow> r = EXIT_FAILURE"
proof (induction steps arbitrary: w)
  case Nil
  then show ?case by simp
next
  case (Cons s steps)
  obtain x e where s: "s = (x, e)" by (cases s)
  from Cons.prems Cons.IH show ?case
    unfolding s checks_Cons by (auto split: if_splits)
qed

lemma logs_one_lib_call:
  "(\<And>w. trace (eff w) = trace w) \<Longrightarrow> trace (snd (lib_call env f h eff w)) = trace w @ [Call f h (fst (lib_call env f h eff w))]"
  by (simp add: snd_lib_call)

lemma logs_one_lib_on_bus:
  "logs_one f (\<lambda>w. lib_call env f (hf w) (on_bus (hf w) (g w)) w)"
  unfolding logs_one_def by (simp add: snd_lib_call)

lemma logs_one_new: "logs_one Sd_bus_new (\<lambda>w. sd_bus_new env (a w) w)"
  unfolding logs_one_def by (simp add: sd_bus_new_def Let_def)

lemma setup_steps_log_one: "(x, e) \<in> set (setup_steps env oa) \<Longrightarrow> logs_one x e"
  unfolding setup_steps_def
  by (auto simp: sd_bus_set_address_def sd_bus_set_bus_client_def sd_bus_negotiate_creds_def
      sd_bus_set_watch_bind_def sd_bus_set_connected_signal_def sd_bus_start_def
      sd_bus_add_object_vtable_def sd_bus_request_name_async_def
      sd_bus_match_signal_async_def sd_bus_attach_event_def
      intro: logs_one_lib_on_bus logs_one_new)

lemma checks_trace:
  assumes "\<And>x e. (x, e) \<in> set steps \<Longrightarrow> logs_one x e"
  shows "\<exists>cs. trace (snd (checks steps w)) = trace w @ cs
           \<and> prefix (map fn_of cs) (map fst steps)
           \<and> (\<forall>c \<in> set (butlast cs). 0 \<le> result_of c)
           \<and> (case fst (checks steps w) of
                 Inl r \<Rightarrow> cs \<noteq> [] \<and> result_of (last cs) < 0
               | Inr _ \<Rightarrow> map fn_of cs = map fst steps \<and> (\<forall>c \<in> set cs. 0 \<le> result_of c))"
  using assms
proof (induction steps arbitrary: w)
  case Nil
  then show ?case by simp
next
  case (Cons s steps)
  obtain x e where s: "s = (x, e)" by (cases s)
  have "logs_one x e" using Cons.prems s by simp
  then obtain h where tr: "trace (snd (e w)) = trace w @ [Call x h (fst (e w))]"
    unfolding logs_one_def by blast
  show ?case
  proof (cases "fst (e w) < 0")
    case True
    then show ?thesis unfolding s checks_Cons using tr
      by (intro exI[of _ "[Call x h (fst (e w))]"]) simp
  next
    case False
    let ?w1 = "snd (check x e w)"
    from Cons.IH[of ?w1] Cons.prems obtain cs where
      cs: "trace (snd (checks steps ?w1)) = trace ?w1 @ cs"
        "prefix (map fn_of cs) (map fst steps)"
        "\<forall>c \<in> set (butlast cs). 0 \<le> result_of c"
        "case fst (checks steps ?w1) of
           Inl r \<Rightarrow> cs \<noteq> [] \<and> result_of (last cs) < 0
         | Inr _ \<Rightarrow> map fn_of cs = map fst steps \<and> (\<forall>c \<in> set cs. 0 \<le> result_of c)"
      by auto
    show ?thesis unfolding s checks_Cons using False tr cs
      by (intro exI[of _ "Call x h (fst (e w)) # cs"])
         (auto split: sum.splits dest: in_set_butlastD)
  qed
qed

subsection \<open>The status of \<open>setup\<close>\<close>

lemma deref_bus_check [simp]: "deref_bus oa (snd (check x e w)) = deref_bus oa (snd (e w))"
  by (simp add: deref_bus_def)

lemma teardown_None: "deref_bus oa w = None \<Longrightarrow> teardown env oa w = (Inr (), w)"
  by (simp add: teardown_def)

lemma teardown_Some:
  assumes "deref_bus oa w = Some h"
  shows "fst (teardown env oa w) =
           (if result_at env (length (trace w)) < 0 then Inl EXIT_FAILURE else Inr ())"
    and "trace (snd (teardown env oa w)) =
           trace w @ (if result_at env (length (trace w)) < 0
                      then [Call Sd_bus_detach_event (Some h) (result_at env (length (trace w)))]
                      else [Call Sd_bus_detach_event (Some h) (result_at env (length (trace w))),
                            Call Sd_bus_close_unref (Some h) 0])"
  using assms
  by (simp_all add: teardown_def check_eq sd_bus_detach_event_def snd_lib_call
      sd_bus_close_unref_def deref_bus_def)

lemma teardown_Inl: "teardown env oa w = (Inl r, w') \<Longrightarrow> r = EXIT_FAILURE"
  by (cases "deref_bus oa w")
     (auto simp: teardown_None dest: arg_cong[where f = fst] simp: teardown_Some(1) split: if_splits)

lemma setup_c_status: "fst (setup_c env oa w) = 0 \<or> fst (setup_c env oa w) = EXIT_FAILURE"
proof (cases "teardown env oa w")
  case (Pair a w1)
  show ?thesis
  proof (cases a)
    case (Inl r)
    with Pair teardown_Inl show ?thesis by (simp add: setup_c_def)
  next
    case (Inr u)
    show ?thesis
    proof (cases "checks (setup_steps env oa) w1")
      case (Pair b w2)
      with Inr \<open>teardown env oa w = (a, w1)\<close> checks_Inl show ?thesis
        by (cases b) (auto simp: setup_c_def)
    qed
  qed
qed

subsection \<open>The calls \<open>setup\<close> makes\<close>

lemma setup_c_teardown_fail:
  "fst (teardown env oa w) = Inl r \<Longrightarrow> setup_c env oa w = (r, snd (teardown env oa w))"
  by (cases "teardown env oa w") (simp add: setup_c_def)

lemma setup_c_teardown_ok:
  "fst (teardown env oa w) = Inr u \<Longrightarrow>
   setup_c env oa w =
     ((case fst (checks (setup_steps env oa) (snd (teardown env oa w))) of
         Inl r \<Rightarrow> r | Inr _ \<Rightarrow> 0),
      snd (checks (setup_steps env oa) (snd (teardown env oa w))))"
  by (cases "teardown env oa w"; cases "checks (setup_steps env oa) (snd (teardown env oa w))")
     (auto simp: setup_c_def split: sum.splits)

lemma map_fst_setup_steps:
  "map fst (setup_steps env oa) =
     [Sd_bus_new, Sd_bus_set_address, Sd_bus_set_bus_client, Sd_bus_negotiate_creds,
      Sd_bus_set_watch_bind, Sd_bus_set_connected_signal, Sd_bus_start,
      Sd_bus_add_object_vtable, Sd_bus_request_name_async, Sd_bus_match_signal_async,
      Sd_bus_attach_event]"
  by (simp add: setup_steps_def)

lemma checks_setup_steps_calls:
  "\<exists>cs. trace (snd (checks (setup_steps env oa) w)) = trace w @ cs \<and> cs \<noteq> []
        \<and> prefix (map fn_of cs) (map fst (setup_steps env oa))
        \<and> (\<forall>c \<in> set (butlast cs). 0 \<le> result_of c)
        \<and> (if result_of (last cs) < 0
            then fst (checks (setup_steps env oa) w) = Inl EXIT_FAILURE
            else fst (checks (setup_steps env oa) w) = Inr ()
                 \<and> map fn_of cs = map fst (setup_steps env oa))"
proof -
  obtain cs where cs: "trace (snd (checks (setup_steps env oa) w)) = trace w @ cs"
    "prefix (map fn_of cs) (map fst (setup_steps env oa))"
    "\<forall>c \<in> set (butlast cs). 0 \<le> result_of c"
    "case fst (checks (setup_steps env oa) w) of
       Inl r \<Rightarrow> cs \<noteq> [] \<and> result_of (last cs) < 0
     | Inr _ \<Rightarrow> map fn_of cs = map fst (setup_steps env oa) \<and> (\<forall>c \<in> set cs. 0 \<le> result_of c)"
  proof -
    have "\<exists>cs. trace (snd (checks (setup_steps env oa) w)) = trace w @ cs
           \<and> prefix (map fn_of cs) (map fst (setup_steps env oa))
           \<and> (\<forall>c \<in> set (butlast cs). 0 \<le> result_of c)
           \<and> (case fst (checks (setup_steps env oa) w) of
                 Inl r \<Rightarrow> cs \<noteq> [] \<and> result_of (last cs) < 0
               | Inr _ \<Rightarrow> map fn_of cs = map fst (setup_steps env oa)
                          \<and> (\<forall>c \<in> set cs. 0 \<le> result_of c))"
      by (rule checks_trace) (erule setup_steps_log_one)
    then show ?thesis using that by blast
  qed
  show ?thesis
  proof (cases "fst (checks (setup_steps env oa) w)")
    case (Inl r)
    then have "r = EXIT_FAILURE"
      using checks_Inl[of "setup_steps env oa" w r "snd (checks (setup_steps env oa) w)"]
      by (metis prod.collapse)
    with Inl cs show ?thesis by (intro exI[of _ cs]) simp
  next
    case (Inr u)
    with cs have m: "map fn_of cs = map fst (setup_steps env oa)"
      and nn: "\<forall>c \<in> set cs. 0 \<le> result_of c" by simp_all
    from m have ne: "cs \<noteq> []" by (auto simp: map_fst_setup_steps)
    then have "\<not> result_of (last cs) < 0" using nn last_in_set[OF ne] by fastforce
    with Inr cs ne show ?thesis by (intro exI[of _ cs]) simp
  qed
qed

lemma setup_c_calls:
  "\<exists>cs. trace (snd (setup_c env oa w)) = trace w @ cs \<and> cs \<noteq> []
        \<and> prefix (map fn_of cs) (setup_plan (deref_bus oa w))
        \<and> (\<forall>c \<in> set (butlast cs). 0 \<le> result_of c)
        \<and> (if result_of (last cs) < 0
            then fst (setup_c env oa w) = EXIT_FAILURE
            else fst (setup_c env oa w) = 0 \<and> map fn_of cs = setup_plan (deref_bus oa w))"
proof (cases "deref_bus oa w")
  case None
  then have td: "teardown env oa w = (Inr (), w)" by (rule teardown_None)
  have plan: "setup_plan (deref_bus oa w) = map fst (setup_steps env oa)"
    using None by (simp add: setup_plan_def map_fst_setup_steps)
  obtain cs where cs: "trace (snd (checks (setup_steps env oa) w)) = trace w @ cs" "cs \<noteq> []"
    "prefix (map fn_of cs) (map fst (setup_steps env oa))"
    "\<forall>c \<in> set (butlast cs). 0 \<le> result_of c"
    "if result_of (last cs) < 0
     then fst (checks (setup_steps env oa) w) = Inl EXIT_FAILURE
     else fst (checks (setup_steps env oa) w) = Inr ()
          \<and> map fn_of cs = map fst (setup_steps env oa)"
    using checks_setup_steps_calls[of env oa w] by blast
  show ?thesis
    using cs td unfolding plan
    by (intro exI[of _ cs]) (auto simp: setup_c_teardown_ok[of env oa w "()"] split: if_splits)
next
  case (Some h)
  let ?r = "result_at env (length (trace w))"
  note td = teardown_Some[OF Some, of env]
  show ?thesis
  proof (cases "?r < 0")
    case True
    then show ?thesis using td Some
      by (intro exI[of _ "[Call Sd_bus_detach_event (Some h) ?r]"])
         (simp add: setup_c_teardown_fail[of env oa w EXIT_FAILURE] setup_plan_def)
  next
    case False
    let ?w1 = "snd (teardown env oa w)"
    have ok: "fst (teardown env oa w) = Inr ()" using td False by simp
    have plan: "setup_plan (deref_bus oa w) =
        [Sd_bus_detach_event, Sd_bus_close_unref] @ map fst (setup_steps env oa)"
      using Some by (simp add: setup_plan_def map_fst_setup_steps)
    obtain cs where cs: "trace (snd (checks (setup_steps env oa) ?w1)) = trace ?w1 @ cs" "cs \<noteq> []"
      "prefix (map fn_of cs) (map fst (setup_steps env oa))"
      "\<forall>c \<in> set (butlast cs). 0 \<le> result_of c"
      "if result_of (last cs) < 0
       then fst (checks (setup_steps env oa) ?w1) = Inl EXIT_FAILURE
       else fst (checks (setup_steps env oa) ?w1) = Inr ()
            \<and> map fn_of cs = map fst (setup_steps env oa)"
      using checks_setup_steps_calls[of env oa ?w1] by blast
    show ?thesis
      using cs td(2) False unfolding plan setup_c_teardown_ok[OF ok]
      by (intro exI[of _ "[Call Sd_bus_detach_event (Some h) ?r,
                            Call Sd_bus_close_unref (Some h) 0] @ cs"])
         (auto split: if_splits simp: butlast_append dest: in_set_butlastD)
  qed
qed

lemma new_calls_append: "trace w' = trace w @ cs \<Longrightarrow> new_calls w w' = cs"
  by (simp add: new_calls_def)

subsection \<open>Evaluation at concrete inputs\<close>

lemmas eval_defs = setup_c_def teardown_def deref_bus_def deref_event_def main_entry_def
  process_start_def main_o_def main_bus_def main_event_def setup_steps_def checks_Cons
  sd_bus_new_def result_at_def snd_lib_call fst_lib_call check_eq Let_def
  sd_bus_set_address_def sd_bus_set_bus_client_def sd_bus_negotiate_creds_def
  sd_bus_set_watch_bind_def sd_bus_set_connected_signal_def sd_bus_start_def
  sd_bus_add_object_vtable_def sd_bus_request_name_async_def
  sd_bus_match_signal_async_def sd_bus_attach_event_def sd_bus_detach_event_def
  sd_bus_close_unref_def on_bus_def new_calls_def fresh_bus_def EXIT_FAILURE_def
  main_def main_body_def main_steps_def sd_event_default_def sd_event_add_signal_def
  sd_event_loop_def sd_bus_release_name_def sd_event_unrefp_def
  sd_bus_flush_close_unrefp_def on_loop_def

subsection \<open>The head of \<open>setup\<close> when the slot holds a handle\<close>

lemma setup_c_calls_Some:
  assumes "deref_bus oa w = Some h"
  shows "result_at env (length (trace w)) < 0 \<Longrightarrow>
           new_calls w (snd (setup_c env oa w)) =
             [Call Sd_bus_detach_event (Some h) (result_at env (length (trace w)))]"
    and "\<not> result_at env (length (trace w)) < 0 \<Longrightarrow>
           \<exists>cs. new_calls w (snd (setup_c env oa w)) =
                  Call Sd_bus_detach_event (Some h) (result_at env (length (trace w)))
                  # Call Sd_bus_close_unref (Some h) 0 # cs
                \<and> cs \<noteq> [] \<and> prefix (map fn_of cs) (map fst (setup_steps env oa))"
proof -
  note td = teardown_Some[OF assms, of env]
  show "result_at env (length (trace w)) < 0 \<Longrightarrow>
           new_calls w (snd (setup_c env oa w)) =
             [Call Sd_bus_detach_event (Some h) (result_at env (length (trace w)))]"
    using td by (simp add: setup_c_teardown_fail[of env oa w EXIT_FAILURE] new_calls_def)
  assume nn: "\<not> result_at env (length (trace w)) < 0"
  let ?w1 = "snd (teardown env oa w)"
  have ok: "fst (teardown env oa w) = Inr ()" using td nn by simp
  obtain cs where cs: "trace (snd (checks (setup_steps env oa) ?w1)) = trace ?w1 @ cs"
    "cs \<noteq> []" "prefix (map fn_of cs) (map fst (setup_steps env oa))"
    using checks_setup_steps_calls[of env oa ?w1] by blast
  show "\<exists>cs. new_calls w (snd (setup_c env oa w)) =
                  Call Sd_bus_detach_event (Some h) (result_at env (length (trace w)))
                  # Call Sd_bus_close_unref (Some h) 0 # cs
                \<and> cs \<noteq> [] \<and> prefix (map fn_of cs) (map fst (setup_steps env oa))"
    using cs td(2) nn unfolding setup_c_teardown_ok[OF ok]
    by (intro exI[of _ cs]) (simp add: new_calls_def)
qed

lemma prefix_setup_steps_shape:
  assumes "prefix (map fn_of cs) (map fst (setup_steps env oa))" and "cs \<noteq> []"
  shows "\<exists>k r' cs1. cs = Call Sd_bus_new k r' # cs1
           \<and> (\<forall>c \<in> set cs1. fn_of c \<noteq> Sd_bus_detach_event \<and> fn_of c \<noteq> Sd_bus_close_unref
                              \<and> fn_of c \<noteq> Sd_bus_new)"
proof -
  from assms(2) obtain c0 cs1 where c: "cs = c0 # cs1" by (cases cs) auto
  obtain f k r' where c0: "c0 = Call f k r'" by (cases c0)
  from assms(1) have f: "f = Sd_bus_new"
    and p: "prefix (map fn_of cs1) (tl (map fst (setup_steps env oa)))"
    unfolding c c0 map_fst_setup_steps by simp_all
  from p have "set (map fn_of cs1) \<subseteq> set (tl (map fst (setup_steps env oa)))"
    by (rule set_mono_prefix)
  then have "\<forall>c \<in> set cs1. fn_of c \<noteq> Sd_bus_detach_event \<and> fn_of c \<noteq> Sd_bus_close_unref
                              \<and> fn_of c \<noteq> Sd_bus_new"
    unfolding map_fst_setup_steps by auto
  with c c0 f show ?thesis by blast
qed

subsection \<open>The getter\<close>

lemmas getter_defs = property_get_def sd_bus_message_append_def sd_bus_error_setf_def
  bus_error_name_to_errno_def snd_lib_call fst_lib_call

subsection \<open>\<open>main\<close> around the loop\<close>

lemma checks_append:
  "checks (xs @ ys) w =
     (case checks xs w of (Inl r, w') \<Rightarrow> (Inl r, w') | (Inr u, w') \<Rightarrow> checks ys w')"
proof (induction xs arbitrary: w)
  case Nil
  then show ?case by simp
next
  case (Cons s xs)
  obtain x e where s: "s = (x, e)" by (cases s)
  show ?case unfolding s append_Cons checks_Cons using Cons.IH by simp
qed

lemma main_steps_split:
  "main_steps env ns =
     butlast (main_steps env ns)
     @ [(Sd_bus_release_name,
         \<lambda>w. sd_bus_release_name env (bus_vars w main_bus)
                ''org.freedesktop.ReconnectExample'' w)]"
  by (simp add: main_steps_def)

lemma butlast_main_steps_split:
  "butlast (main_steps env ns) =
     butlast (butlast (main_steps env ns))
     @ [(Sd_event_loop, \<lambda>w. sd_event_loop env (event_vars w main_event) ns w)]"
  by (simp add: main_steps_def)

lemma checks_single:
  "checks [(x, e)] w = (if fst (e w) < 0 then (Inl EXIT_FAILURE, snd (check x e w))
                        else (Inr (), snd (check x e w)))"
  by (simp add: checks_Cons del: checks.simps(2))

lemma trace_release_name:
  "trace (snd (sd_bus_release_name env h name w)) =
     trace w @ [Call Sd_bus_release_name h (result_at env (length (trace w)))]"
  by (simp add: sd_bus_release_name_def snd_lib_call)

lemma trace_event_loop:
  "trace (snd (sd_event_loop env e ns w)) =
     trace (foldl (\<lambda>w' n. deliver env e n w') w ns)
     @ [Call Sd_event_loop e (fst (sd_event_loop env e ns w))]"
  by (simp add: sd_event_loop_def snd_lib_call)

lemma main_through_loop_last:
  assumes "fst (main_through_loop env ns) = Inr ()"
  shows "\<exists>e r. last (trace (snd (main_through_loop env ns))) = Call Sd_event_loop e r \<and> 0 \<le> r"
proof -
  let ?loop = "\<lambda>w. sd_event_loop env (event_vars w main_event) ns w"
  let ?pre = "butlast (butlast (main_steps env ns))"
  have split: "main_through_loop env ns =
      (case checks ?pre main_entry of
         (Inl r, w') \<Rightarrow> (Inl r, w')
       | (Inr u, w') \<Rightarrow> checks [(Sd_event_loop, ?loop)] w')"
    unfolding main_through_loop_def
    by (subst butlast_main_steps_split, subst checks_append) simp
  obtain a w4 where p: "checks ?pre main_entry = (a, w4)" by (cases "checks ?pre main_entry")
  show ?thesis
  proof (cases a)
    case (Inl r)
    with assms p show ?thesis unfolding split by simp
  next
    case (Inr u)
    with assms p have nn: "\<not> fst (?loop w4) < 0"
      and w: "snd (main_through_loop env ns) = snd (check Sd_event_loop ?loop w4)"
      unfolding split checks_single by (simp_all split: if_splits)
    show ?thesis unfolding w using nn by (simp add: trace_event_loop)
  qed
qed

lemmas main_eval_defs = eval_defs on_disconnect_def dispatches_def main_through_loop_def

subsection \<open>The state a run of \<open>setup\<close> leaves\<close>

lemmas step_defs = sd_bus_set_address_def sd_bus_set_bus_client_def sd_bus_negotiate_creds_def
  sd_bus_set_watch_bind_def sd_bus_set_connected_signal_def sd_bus_start_def
  sd_bus_add_object_vtable_def sd_bus_request_name_async_def
  sd_bus_match_signal_async_def sd_bus_attach_event_def

lemma setup_steps_configure:
  "setup_steps env oa =
     (Sd_bus_new, \<lambda>w. sd_bus_new env (bus (objects w oa)) w)
     # map (configure env oa) (setup_updates oa)"
  by (simp add: setup_steps_def setup_updates_def configure_def step_defs)

lemma building_new:
  assumes "\<not> fst (sd_bus_new env (bus (objects w oa)) w) < 0"
  shows "building oa w (snd (check x (\<lambda>w. sd_bus_new env (bus (objects w oa)) w) w)) fresh_bus"
  using assms by (simp add: building_def sd_bus_new_def Let_def split: if_splits)

lemma building_configure:
  assumes "building oa w w1 b" and "\<not> fst (snd (configure env oa fg) w1) < 0"
  shows "building oa w (snd (check (fst (configure env oa fg)) (snd (configure env oa fg)) w1))
           (snd fg (deref_event oa w) b)"
proof -
  have d: "deref_bus oa w1 = Some (length (buses w))"
    and e: "deref_event oa w1 = deref_event oa w"
    using assms(1) by (simp_all add: building_def deref_bus_def deref_event_def)
  have nn: "\<not> result_at env (length (trace w1)) < 0"
    using assms(2) by (simp add: configure_def)
  show ?thesis
    using assms(1) nn
    by (simp add: configure_def d e snd_lib_call on_bus_def building_def)
qed

lemma building_checks:
  assumes "building oa w w1 b"
    and "checks (map (configure env oa) fgs) w1 = (Inr u, w')"
  shows "building oa w w' (fold (\<lambda>fg. snd fg (deref_event oa w)) fgs b)"
  using assms
proof (induction fgs arbitrary: w1 b)
  case Nil
  then show ?case by simp
next
  case (Cons fg fgs)
  have c: "configure env oa fg = (fst (configure env oa fg), snd (configure env oa fg))"
    by simp
  from Cons.prems(2) have nn: "\<not> fst (snd (configure env oa fg) w1) < 0"
    and rest: "checks (map (configure env oa) fgs)
                 (snd (check (fst (configure env oa fg)) (snd (configure env oa fg)) w1))
               = (Inr u, w')"
    by (subst (asm) list.map(2), subst (asm) c, subst (asm) checks_Cons,
        simp split: if_splits)+
  from Cons.IH[OF building_configure[OF Cons.prems(1) nn] rest] show ?case by simp
qed

lemma fold_setup_updates:
  "fold (\<lambda>fg. snd fg e) (setup_updates oa) fresh_bus = configured_bus oa e"
  by (simp add: setup_updates_def fresh_bus_def configured_bus_def List.union_def List.insert_def)

lemma checks_setup_steps_Inr:
  assumes "checks (setup_steps env oa) w = (Inr u, w')"
  shows "building oa w w' (configured_bus oa (deref_event oa w))"
proof -
  let ?new = "\<lambda>w. sd_bus_new env (bus (objects w oa)) w"
  from assms have nn: "\<not> fst (?new w) < 0"
    and rest: "checks (map (configure env oa) (setup_updates oa))
                 (snd (check Sd_bus_new ?new w)) = (Inr u, w')"
    unfolding setup_steps_configure checks_Cons by (simp_all split: if_splits)
  from building_checks[OF building_new[OF nn] rest] show ?thesis
    by (simp add: fold_setup_updates)
qed


lemma nth_list_update_any:
  "xs[i := x] ! j = (if i = j \<and> j < length xs then x else xs ! j)"
  by (cases "i < length xs") (auto simp: nth_list_update list_update_beyond)

lemma teardown_Inr_state:
  assumes "teardown env oa w = (Inr u, w1)"
  shows "objects w1 = objects w" "event_vars w1 = event_vars w" "loops w1 = loops w"
    "bus_vars w1 = (bus_vars w)(bus (objects w oa) := None)"
    "length (buses w1) = length (buses w)"
    "\<forall>k < length (buses w). bus_closed (buses w1 ! k)
        = (bus_closed (buses w ! k) \<or> deref_bus oa w = Some k)"
proof -
  show "objects w1 = objects w" "event_vars w1 = event_vars w" "loops w1 = loops w"
    "bus_vars w1 = (bus_vars w)(bus (objects w oa) := None)"
    "length (buses w1) = length (buses w)"
    using assms
    by (auto simp: teardown_def check_eq sd_bus_detach_event_def snd_lib_call
        sd_bus_close_unref_def deref_bus_def split: option.splits if_splits)
  show "\<forall>k < length (buses w). bus_closed (buses w1 ! k)
        = (bus_closed (buses w ! k) \<or> deref_bus oa w = Some k)"
    using assms
    by (auto simp: teardown_def check_eq sd_bus_detach_event_def snd_lib_call
        sd_bus_close_unref_def deref_bus_def on_bus_def nth_list_update_any
        split: option.splits if_splits)
qed

lemma teardown_Inl_state:
  assumes "teardown env oa w = (Inl r, w1)"
  shows "objects w1 = objects w" "bus_vars w1 = bus_vars w" "buses w1 = buses w"
  using assms
  by (auto simp: teardown_def check_eq sd_bus_detach_event_def snd_lib_call
      sd_bus_close_unref_def deref_bus_def split: option.splits if_splits)

lemma building_errno_stdout:
  "building oa w (w1\<lparr>errno := n, stdout := s\<rparr>) b = building oa w w1 b"
  by (simp add: building_def)

lemma building_configure_any:
  assumes "building oa w w1 b"
  shows "\<exists>b'. building oa w (snd (check x (snd (configure env oa fg)) w1)) b'
              \<and> bus_closed b' = (if fst (snd (configure env oa fg) w1) < 0 then bus_closed b
                                  else bus_closed (snd fg (deref_event oa w) b))"
proof (cases "fst (snd (configure env oa fg) w1) < 0")
  case True
  then have "building oa w (snd (check x (snd (configure env oa fg)) w1)) b"
    using assms by (simp add: configure_def snd_lib_call building_def)
  with True show ?thesis by auto
next
  case False
  from building_configure[OF assms False]
  have "building oa w (snd (check x (snd (configure env oa fg)) w1))
          (snd fg (deref_event oa w) b)"
    by (simp add: building_def)
  with False show ?thesis by auto
qed

lemma building_checks_any:
  assumes "building oa w w1 b" and "\<not> bus_closed b"
    and "\<And>fg e b. fg \<in> set fgs \<Longrightarrow> bus_closed (snd fg e b) = bus_closed b"
  shows "\<exists>b'. building oa w (snd (checks (map (configure env oa) fgs) w1)) b' \<and> \<not> bus_closed b'"
  using assms
proof (induction fgs arbitrary: w1 b)
  case Nil
  then show ?case by auto
next
  case (Cons fg fgs)
  have c: "configure env oa fg = (fst (configure env oa fg), snd (configure env oa fg))"
    by simp
  let ?w2 = "snd (check (fst (configure env oa fg)) (snd (configure env oa fg)) w1)"
  from building_configure_any[OF Cons.prems(1), of "fst (configure env oa fg)" env fg]
  obtain b' where b': "building oa w ?w2 b'" "\<not> bus_closed b'"
    using Cons.prems(2,3) by (auto split: if_splits)
  have eq: "checks (map (configure env oa) (fg # fgs)) w1 =
      (if fst (snd (configure env oa fg) w1) < 0 then (Inl EXIT_FAILURE, ?w2)
       else checks (map (configure env oa) fgs) ?w2)"
    by (subst list.map(2), subst c, subst checks_Cons) simp
  show ?case
  proof (cases "fst (snd (configure env oa fg) w1) < 0")
    case True
    then show ?thesis using b' unfolding eq by auto
  next
    case False
    from Cons.IH[OF b'] Cons.prems(3) show ?thesis unfolding eq using False by auto
  qed
qed

lemma setup_updates_keep_open:
  "fg \<in> set (setup_updates oa) \<Longrightarrow> bus_closed (snd fg e b) = bus_closed b"
  by (auto simp: setup_updates_def)

lemma checks_setup_steps_any:
  "(\<exists>b. building oa w (snd (checks (setup_steps env oa) w)) b \<and> \<not> bus_closed b)
   \<or> (buses (snd (checks (setup_steps env oa) w)) = buses w
       \<and> bus_vars (snd (checks (setup_steps env oa) w)) = bus_vars w
       \<and> objects (snd (checks (setup_steps env oa) w)) = objects w)"
proof (cases "fst (sd_bus_new env (bus (objects w oa)) w) < 0")
  case True
  then show ?thesis
    unfolding setup_steps_configure checks_Cons
    by (simp add: sd_bus_new_def Let_def split: if_splits)
next
  case False
  from building_checks_any[OF building_new[OF False], of "setup_updates oa" env Sd_bus_new]
  show ?thesis
    unfolding setup_steps_configure checks_Cons using False
    by (auto simp: fresh_bus_def setup_updates_keep_open)
qed

subsection \<open>The invariant of the slot\<close>

lemma slot_inv_cong:
  "objects w' = objects w \<Longrightarrow> buses w' = buses w \<Longrightarrow> bus_vars w' = bus_vars w \<Longrightarrow>
   slot_inv w' = slot_inv w"
  by (simp add: slot_inv_def)

lemma slot_inv_on_bus:
  assumes "slot_inv w" and "\<And>b. bus_closed (g b) = bus_closed b"
  shows "slot_inv (on_bus h g w)"
  using assms by (auto simp: slot_inv_def on_bus_def nth_list_update_any split: option.splits)

lemma slot_inv_trace [simp]: "slot_inv (w\<lparr>trace := t\<rparr>) = slot_inv w"
  by (simp add: slot_inv_def)

lemma slot_inv_check [simp]: "slot_inv (snd (check x e w)) = slot_inv (snd (e w))"
  by (simp add: slot_inv_def)

lemma setup_c_slot_inv:
  assumes "slot_inv w"
  shows "slot_inv (snd (setup_c env main_o w))"
proof -
  obtain a w1 where td: "teardown env main_o w = (a, w1)" by (cases "teardown env main_o w")
  have o: "objects w main_o = \<lparr>example = ''example'', bus = main_bus, event = main_event\<rparr>"
    using assms by (simp add: slot_inv_def)
  show ?thesis
  proof (cases a)
    case (Inl r)
    from teardown_Inl_state[OF td[unfolded Inl]] have "slot_inv w1 = slot_inv w"
      by (intro slot_inv_cong)
    with assms td Inl show ?thesis by (simp add: setup_c_def)
  next
    case (Inr u)
    note st = teardown_Inr_state[OF td[unfolded Inr]]
    let ?w2 = "snd (checks (setup_steps env main_o) w1)"
    have res: "snd (setup_c env main_o w) = ?w2"
      using setup_c_teardown_ok[of env main_o w u] td Inr by simp
    have closed1: "\<forall>k < length (buses w1). bus_closed (buses w1 ! k)"
      using st(5,6) assms o by (auto simp: slot_inv_def deref_bus_def)
    have o1: "objects w1 main_o = \<lparr>example = ''example'', bus = main_bus, event = main_event\<rparr>"
      using st(1) o by simp
    from checks_setup_steps_any[of main_o w1 env] show ?thesis
    proof
      assume "\<exists>b. building main_o w1 ?w2 b \<and> \<not> bus_closed b"
      then obtain b where b: "building main_o w1 ?w2 b" by blast
      then show ?thesis unfolding res using closed1 o1
        by (auto simp: building_def slot_inv_def nth_append)
    next
      assume "buses ?w2 = buses w1 \<and> bus_vars ?w2 = bus_vars w1 \<and> objects ?w2 = objects w1"
      then show ?thesis unfolding res using closed1 o1 by (simp add: slot_inv_def)
    qed
  qed
qed

lemma reachable_slot_inv: "reachable w \<Longrightarrow> slot_inv w"
proof (induction rule: reachable.induct)
  case entry
  show ?case by (simp add: slot_inv_def main_entry_def process_start_def)
next
  case (event_default w env)
  then show ?case by (simp add: sd_event_default_def Let_def slot_inv_def)
next
  case (add_signal w env s)
  then show ?case by (simp add: sd_event_add_signal_def snd_lib_call slot_inv_def)
next
  case (setup_main w env)
  then show ?case by (simp add: setup_c_slot_inv)
next
  case (setup_call w env)
  then show ?case by (simp add: setup_c_slot_inv)
next
  case (getter w env b path interface property reply error)
  then show ?case by (simp add: getter_defs slot_inv_def)
next
  case (loop_returns w env e)
  then show ?case by (simp add: sd_event_loop_def snd_lib_call)
next
  case (release_name w env name)
  then show ?case
    by (simp add: sd_bus_release_name_def snd_lib_call slot_inv_on_bus)
qed

subsection \<open>The registrations name \<open>main\<close>'s object\<close>

lemma building_configure_pred:
  assumes "building oa w w1 b" and "Q b" and "\<And>e b. Q b \<Longrightarrow> Q (snd fg e b)"
  shows "\<exists>b'. building oa w (snd (check x (snd (configure env oa fg)) w1)) b' \<and> Q b'"
proof (cases "fst (snd (configure env oa fg) w1) < 0")
  case True
  then have "building oa w (snd (check x (snd (configure env oa fg)) w1)) b"
    using assms(1) by (simp add: configure_def snd_lib_call building_def)
  with assms(2) show ?thesis by auto
next
  case False
  from building_configure[OF assms(1) False]
  have "building oa w (snd (check x (snd (configure env oa fg)) w1))
          (snd fg (deref_event oa w) b)"
    by (simp add: building_def)
  with assms(2,3) show ?thesis by auto
qed

lemma building_checks_pred:
  assumes "building oa w w1 b" and "Q b"
    and "\<And>fg e b. fg \<in> set fgs \<Longrightarrow> Q b \<Longrightarrow> Q (snd fg e b)"
  shows "\<exists>b'. building oa w (snd (checks (map (configure env oa) fgs) w1)) b' \<and> Q b'"
  using assms
proof (induction fgs arbitrary: w1 b)
  case Nil
  then show ?case by auto
next
  case (Cons fg fgs)
  have c: "configure env oa fg = (fst (configure env oa fg), snd (configure env oa fg))"
    by simp
  let ?w2 = "snd (check (fst (configure env oa fg)) (snd (configure env oa fg)) w1)"
  from building_configure_pred[OF Cons.prems(1), of Q fg "fst (configure env oa fg)" env]
  obtain b' where b': "building oa w ?w2 b'" "Q b'"
    using Cons.prems(2,3) by auto
  have eq: "checks (map (configure env oa) (fg # fgs)) w1 =
      (if fst (snd (configure env oa fg) w1) < 0 then (Inl EXIT_FAILURE, ?w2)
       else checks (map (configure env oa) fgs) ?w2)"
    by (subst list.map(2), subst c, subst checks_Cons) simp
  show ?case
  proof (cases "fst (snd (configure env oa fg) w1) < 0")
    case True
    then show ?thesis using b' unfolding eq by auto
  next
    case False
    from Cons.IH[OF b'] Cons.prems(3) show ?thesis unfolding eq using False by auto
  qed
qed

lemma setup_updates_regs_ok:
  "fg \<in> set (setup_updates main_o) \<Longrightarrow> regs_ok b \<Longrightarrow> regs_ok (snd fg e b)"
  by (auto simp: setup_updates_def regs_ok_def)

lemma checks_setup_steps_regs:
  "(\<exists>b. building main_o w (snd (checks (setup_steps env main_o) w)) b \<and> regs_ok b)
   \<or> buses (snd (checks (setup_steps env main_o) w)) = buses w"
proof (cases "fst (sd_bus_new env (bus (objects w main_o)) w) < 0")
  case True
  then show ?thesis
    unfolding setup_steps_configure checks_Cons
    by (simp add: sd_bus_new_def Let_def split: if_splits)
next
  case False
  have "regs_ok fresh_bus" by (simp add: regs_ok_def fresh_bus_def)
  from building_checks_pred[where Q = regs_ok and fgs = "setup_updates main_o" and env = env,
         OF building_new[OF False, of Sd_bus_new] this] setup_updates_regs_ok
  show ?thesis
    unfolding setup_steps_configure checks_Cons using False by auto
qed

lemma regs_inv_cong: "buses w' = buses w \<Longrightarrow> regs_inv w' = regs_inv w"
  by (simp add: regs_inv_def)

lemma regs_ok_list_update:
  assumes "\<forall>b \<in> set xs. regs_ok b" and "h < length xs \<Longrightarrow> regs_ok x"
  shows "\<forall>b \<in> set (xs[h := x]). regs_ok b"
proof (cases "h < length xs")
  case True
  have "set (xs[h := x]) \<subseteq> insert x (set xs)" by (rule set_update_subset_insert)
  with assms True show ?thesis by auto
next
  case False
  with assms(1) show ?thesis by (simp add: list_update_beyond)
qed

lemma regs_inv_on_bus:
  assumes "regs_inv w" and "\<And>b. regs_ok (g b) = regs_ok b"
  shows "regs_inv (on_bus h g w)"
proof (cases h)
  case None
  with assms show ?thesis by (simp add: on_bus_def)
next
  case (Some k)
  have "\<forall>b \<in> set ((buses w)[k := g (buses w ! k)]). regs_ok b"
    using assms by (intro regs_ok_list_update) (simp_all add: regs_inv_def)
  with Some show ?thesis by (simp add: on_bus_def regs_inv_def)
qed

lemma regs_inv_trace [simp]: "regs_inv (w\<lparr>trace := t\<rparr>) = regs_inv w"
  by (simp add: regs_inv_def)

lemma regs_inv_check [simp]: "regs_inv (snd (check x e w)) = regs_inv (snd (e w))"
  by (simp add: regs_inv_def)

lemma teardown_regs_inv:
  assumes "regs_inv w"
  shows "regs_inv (snd (teardown env oa w))"
proof (cases "deref_bus oa w")
  case None
  with assms show ?thesis by (simp add: teardown_None)
next
  case (Some h)
  let ?r = "result_at env (length (trace w))"
  show ?thesis
  proof (cases "?r < 0")
    case True
    then have "buses (snd (teardown env oa w)) = buses w"
      using Some by (simp add: teardown_def check_eq sd_bus_detach_event_def snd_lib_call)
    with assms show ?thesis by (simp add: regs_inv_def)
  next
    case False
    let ?w1 = "on_bus (Some h) (\<lambda>b. b\<lparr>attached_to := None\<rparr>) w"
    have d: "regs_inv ?w1"
      by (rule regs_inv_on_bus[OF assms]) (simp add: regs_ok_def)
    have c: "regs_inv (on_bus (Some h) (\<lambda>b. b\<lparr>bus_closed := True\<rparr>) ?w1)"
      by (rule regs_inv_on_bus[OF d]) (simp add: regs_ok_def)
    have "buses (snd (teardown env oa w))
            = buses (on_bus (Some h) (\<lambda>b. b\<lparr>bus_closed := True\<rparr>) ?w1)"
      using Some False
      by (simp add: teardown_def check_eq sd_bus_detach_event_def snd_lib_call
          sd_bus_close_unref_def deref_bus_def on_bus_def)
    with c show ?thesis by (simp add: regs_inv_def)
  qed
qed

subsection \<open>Every state of a run of \<open>main\<close> is reachable\<close>

lemma setup_c_regs_inv:
  assumes "regs_inv w"
  shows "regs_inv (snd (setup_c env main_o w))"
proof -
  let ?w1 = "snd (teardown env main_o w)"
  let ?w2 = "snd (checks (setup_steps env main_o) ?w1)"
  have r1: "regs_inv ?w1" using assms by (rule teardown_regs_inv)
  show ?thesis
  proof (cases "fst (teardown env main_o w)")
    case (Inl r)
    then show ?thesis using r1 by (simp add: setup_c_teardown_fail)
  next
    case (Inr u)
    have res: "snd (setup_c env main_o w) = ?w2"
      using setup_c_teardown_ok[OF Inr] by simp
    from checks_setup_steps_regs[of ?w1 env] show ?thesis
    proof
      assume "\<exists>b. building main_o ?w1 ?w2 b \<and> regs_ok b"
      then show ?thesis unfolding res using r1 by (auto simp: building_def regs_inv_def)
    next
      assume "buses ?w2 = buses ?w1"
      then show ?thesis unfolding res using r1 by (simp add: regs_inv_def)
    qed
  qed
qed

lemma reachable_regs_inv: "reachable w \<Longrightarrow> regs_inv w"
proof (induction rule: reachable.induct)
  case entry
  show ?case by (simp add: regs_inv_def main_entry_def process_start_def)
next
  case (event_default w env)
  then show ?case by (simp add: sd_event_default_def Let_def regs_inv_def)
next
  case (add_signal w env s)
  then show ?case by (simp add: sd_event_add_signal_def snd_lib_call regs_inv_def)
next
  case (setup_main w env)
  then show ?case by (simp add: setup_c_regs_inv)
next
  case (setup_call w env)
  then show ?case by (simp add: setup_c_regs_inv)
next
  case (getter w env b path interface property reply error)
  then show ?case by (simp add: getter_defs regs_inv_def)
next
  case (loop_returns w env e)
  then show ?case by (simp add: sd_event_loop_def snd_lib_call)
next
  case (release_name w env name)
  have "regs_inv (on_bus (bus_vars w main_bus) (\<lambda>b. b\<lparr>released := released b @ [name]\<rparr>) w')"
    if "regs_inv w'" for w'
    by (rule regs_inv_on_bus[OF that]) (simp add: regs_ok_def)
  then show ?case using release_name.IH
    by (simp add: sd_bus_release_name_def snd_lib_call)
qed

lemma snd_on_disconnect:
  "snd (on_disconnect env u w) = snd (check Setup (setup_c env u) w)"
  by (simp add: on_disconnect_def check_eq)

lemma callbacks_reachable:
  assumes "reachable w" and "\<forall>r \<in> set rs. snd (snd r) = main_o"
  shows "reachable (foldl (\<lambda>w' (i, m, u).
                      if i = ''org.freedesktop.DBus.Local'' \<and> m = ''Disconnected''
                      then snd (on_disconnect env u w') else w') w rs)"
  using assms
proof (induction rs arbitrary: w)
  case Nil
  then show ?case by simp
next
  case (Cons r rs)
  obtain i m u where r: "r = (i, m, u)" by (cases r)
  with Cons.prems have u: "u = main_o" by simp
  have "reachable (if i = ''org.freedesktop.DBus.Local'' \<and> m = ''Disconnected''
                   then snd (on_disconnect env main_o w) else w)"
    using Cons.prems(1) unfolding snd_on_disconnect by (simp add: reachable.setup_main)
  from Cons.IH[OF this] Cons.prems(2) show ?case unfolding r u by simp
qed

lemma getters_reachable:
  assumes "reachable w" and "\<forall>r \<in> set rs. snd (snd r) = main_o"
  shows "reachable (foldl (\<lambda>w' (p, i, u).
                      if p = path \<and> i = interface
                      then snd (property_get env b path interface property reply u error w')
                      else w') w rs)"
  using assms
proof (induction rs arbitrary: w)
  case Nil
  then show ?case by simp
next
  case (Cons r rs)
  obtain p i u where r: "r = (p, i, u)" by (cases r)
  with Cons.prems have u: "u = main_o" by simp
  have "reachable (if p = path \<and> i = interface
                   then snd (property_get env b path interface property reply main_o error w)
                   else w)"
    using Cons.prems(1) by (simp add: reachable.getter)
  from Cons.IH[OF this] Cons.prems(2) show ?case unfolding r u by simp
qed

lemma deliver_reachable:
  assumes "reachable w"
  shows "reachable (deliver env e n w)"
proof (cases n)
  case (Disconnected h)
  show ?thesis
  proof (cases "dispatches e h w")
    case True
    then have "buses w ! h \<in> set (buses w)" by (simp add: dispatches_def)
    with reachable_regs_inv[OF assms]
    have "\<forall>r \<in> set (matches (buses w ! h)). snd (snd r) = main_o"
      by (simp add: regs_inv_def regs_ok_def)
    from callbacks_reachable[OF assms this] True show ?thesis
      unfolding Disconnected by simp
  next
    case False
    with assms show ?thesis unfolding Disconnected by simp
  qed
next
  case (Get_property h path interface property reply error)
  show ?thesis
  proof (cases "dispatches e h w")
    case True
    then have "buses w ! h \<in> set (buses w)" by (simp add: dispatches_def)
    with reachable_regs_inv[OF assms]
    have "\<forall>r \<in> set (vtables (buses w ! h)). snd (snd r) = main_o"
      by (simp add: regs_inv_def regs_ok_def)
    from getters_reachable[OF assms this] True show ?thesis
      unfolding Get_property by simp
  next
    case False
    with assms show ?thesis unfolding Get_property by simp
  qed
qed

lemma deliveries_reachable:
  "reachable w \<Longrightarrow> reachable (foldl (\<lambda>w' n. deliver env e n w') w ns)"
  by (induction ns arbitrary: w) (simp_all add: deliver_reachable)

lemma event_loop_reachable:
  assumes "reachable w"
  shows "reachable (snd (check Sd_event_loop (sd_event_loop env e ns) w))"
proof -
  let ?w1 = "foldl (\<lambda>w' n. deliver env e n w') w ns"
  have eq: "sd_event_loop env e ns w = sd_event_loop env e [] ?w1"
    by (simp add: sd_event_loop_def)
  have "snd (check Sd_event_loop (sd_event_loop env e ns) w)
        = (snd (check Sd_event_loop (sd_event_loop env e []) ?w1))"
    by (simp add: check_eq eq)
  then show ?thesis
    using reachable.loop_returns[OF deliveries_reachable[OF assms, of env e ns], of env e]
    by simp
qed

lemma checks_pred:
  assumes "\<And>x e w. (x, e) \<in> set steps \<Longrightarrow> P w \<Longrightarrow> P (snd (check x e w))" and "P w"
  shows "P (snd (checks steps w))"
  using assms
proof (induction steps arbitrary: w)
  case Nil
  then show ?case by simp
next
  case (Cons s steps)
  obtain x e where s: "s = (x, e)" by (cases s)
  have "P (snd (check x e w))" using Cons.prems s by simp
  from Cons.IH[OF _ this] Cons.prems(1) this show ?case
    unfolding s checks_Cons by simp
qed

lemma main_steps_reachable:
  assumes "reachable w"
  shows "reachable (snd (check Sd_event_add_signal
                      (\<lambda>w. sd_event_add_signal env (event_vars w main_event) s w) w))"
    and "reachable (snd (check Sd_event_loop
                      (\<lambda>w. sd_event_loop env (event_vars w main_event) ns w) w))"
    and "reachable (snd (check Sd_bus_release_name
                      (\<lambda>w. sd_bus_release_name env (bus_vars w main_bus) name w) w))"
  using reachable.add_signal[OF assms, of env s]
    event_loop_reachable[OF assms, of env "event_vars w main_event" ns]
    reachable.release_name[OF assms, of env name]
  by (simp_all add: check_def)

lemma main_body_reachable: "reachable (snd (main_body env ns))"
proof -
  have "reachable (snd (checks (main_steps env ns) main_entry))"
  proof (rule checks_pred[where P = reachable])
    show "reachable main_entry" by (rule reachable.entry)
  next
    fix x e w
    assume "(x, e) \<in> set (main_steps env ns)" and "reachable w"
    then show "reachable (snd (check x e w))"
      unfolding main_steps_def
      by (auto intro: reachable.event_default reachable.setup_main main_steps_reachable)
  qed
  then show ?thesis by (auto simp: main_body_def split: prod.splits sum.splits)
qed

section \<open>The claims\<close>

text \<open>
  Claim C9. \<open>setup\<close> returns 0 or \<open>EXIT_FAILURE\<close>, which is 1, and never a negative
  value. So \<open>check(setup(...))\<close>, in \<open>main\<close> and in \<open>on_disconnect\<close>, never takes its failure
  branch, whatever the object and the state, and \<open>on_disconnect\<close> returns 0 on every input,
  whether \<open>setup\<close> succeeded or failed.
\<close>

theorem setup_never_negative:
  "(fst (setup_c env oa w) = 0 \<or> fst (setup_c env oa w) = EXIT_FAILURE)
   \<and> EXIT_FAILURE = 1
   \<and> 0 \<le> fst (setup_c env oa w)
   \<and> fst (check Setup (setup_c env oa) w) = Inr ()
   \<and> fst (on_disconnect env userdata w) = 0"
proof -
  have s: "fst (setup_c env oa w) = 0 \<or> fst (setup_c env oa w) = EXIT_FAILURE" for oa
    by (rule setup_c_status)
  have nn: "\<not> fst (setup_c env oa w) < 0" for oa
    using s[of oa] by (auto simp: EXIT_FAILURE_def)
  show ?thesis
    using s[of oa] nn[of oa] nn[of userdata]
    by (simp add: fst_check on_disconnect_def check_eq EXIT_FAILURE_def)
qed

text \<open>
  Claim C6. \<open>setup\<close> stops at the first step that fails. In every invocation the library
  calls it makes are an initial part of its steps in the order of the text; every call but
  the last returned a non-negative result, so a step runs only after all steps before it
  succeeded; when the last call made returned a negative result \<open>setup\<close> returns
  \<open>EXIT_FAILURE\<close> there, with no later step run; and it returns 0 only when every step was
  run and succeeded.
\<close>

theorem setup_short_circuits:
  "trace (snd (setup_c env oa w)) = trace w @ new_calls w (snd (setup_c env oa w))
   \<and> new_calls w (snd (setup_c env oa w)) \<noteq> []
   \<and> prefix (map fn_of (new_calls w (snd (setup_c env oa w)))) (setup_plan (deref_bus oa w))
   \<and> (\<forall>c \<in> set (butlast (new_calls w (snd (setup_c env oa w)))). 0 \<le> result_of c)
   \<and> (if result_of (last (new_calls w (snd (setup_c env oa w)))) < 0
      then fst (setup_c env oa w) = EXIT_FAILURE
      else fst (setup_c env oa w) = 0
           \<and> map fn_of (new_calls w (snd (setup_c env oa w))) = setup_plan (deref_bus oa w))"
proof -
  obtain cs where cs: "trace (snd (setup_c env oa w)) = trace w @ cs" "cs \<noteq> []"
    "prefix (map fn_of cs) (setup_plan (deref_bus oa w))"
    "\<forall>c \<in> set (butlast cs). 0 \<le> result_of c"
    "if result_of (last cs) < 0
     then fst (setup_c env oa w) = EXIT_FAILURE
     else fst (setup_c env oa w) = 0 \<and> map fn_of cs = setup_plan (deref_bus oa w)"
    using setup_c_calls[of env oa w] by blast
  have "new_calls w (snd (setup_c env oa w)) = cs" using cs(1) by (rule new_calls_append)
  with cs show ?thesis by simp
qed

theorem setup_short_circuits_witness:
  "new_calls main_entry (snd (setup_c [0, -12] main_o main_entry)) =
     [Call Sd_bus_new (Some 0) 0, Call Sd_bus_set_address (Some 0) (-12)]
   \<and> fst (setup_c [0, -12] main_o main_entry) = EXIT_FAILURE"
proof -
  have c: "new_calls main_entry (snd (setup_c [0, -12] main_o main_entry)) =
     [Call Sd_bus_new (Some 0) 0, Call Sd_bus_set_address (Some 0) (-12)]"
    by (simp add: eval_defs del: checks.simps(2))
  have "fst (setup_c [0, -12] main_o main_entry) = EXIT_FAILURE"
    using setup_short_circuits[of "[0, -12]" main_o main_entry] unfolding c by simp
  with c show ?thesis by simp
qed

text \<open>
  Claim C5, as amended. In every invocation of \<open>setup\<close> whose slot holds a handle, the
  first call detaches that handle. When the detach fails nothing else is called: the handle
  is not closed and no new handle is made. Otherwise the next two calls close that same
  handle and make the new one, in this order, and no other call of the invocation
  detaches, closes or makes a handle. (What the claim says of every handle that was ever
  attached fails when \<open>main\<close> returns, as shown after the witness.)
\<close>

theorem setup_detach_close_new:
  assumes "deref_bus oa w = Some h"
  shows "if result_at env (length (trace w)) < 0
         then new_calls w (snd (setup_c env oa w)) =
                [Call Sd_bus_detach_event (Some h) (result_at env (length (trace w)))]
         else (\<exists>k r'. take 3 (new_calls w (snd (setup_c env oa w))) =
                  [Call Sd_bus_detach_event (Some h) (result_at env (length (trace w))),
                   Call Sd_bus_close_unref (Some h) 0, Call Sd_bus_new k r'])
              \<and> filter (\<lambda>c. fn_of c = Sd_bus_detach_event \<or> fn_of c = Sd_bus_close_unref
                                \<or> fn_of c = Sd_bus_new)
                   (new_calls w (snd (setup_c env oa w)))
                 = take 3 (new_calls w (snd (setup_c env oa w)))"
proof (cases "result_at env (length (trace w)) < 0")
  case True
  then show ?thesis using setup_c_calls_Some(1)[OF assms] by simp
next
  case False
  from setup_c_calls_Some(2)[OF assms False] obtain cs where
    cs: "new_calls w (snd (setup_c env oa w)) =
           Call Sd_bus_detach_event (Some h) (result_at env (length (trace w)))
           # Call Sd_bus_close_unref (Some h) 0 # cs"
      "cs \<noteq> []" "prefix (map fn_of cs) (map fst (setup_steps env oa))"
    by blast
  from prefix_setup_steps_shape[OF cs(3) cs(2)] obtain k r' cs1 where
    sh: "cs = Call Sd_bus_new k r' # cs1"
      "\<forall>c \<in> set cs1. fn_of c \<noteq> Sd_bus_detach_event \<and> fn_of c \<noteq> Sd_bus_close_unref
                       \<and> fn_of c \<noteq> Sd_bus_new"
    by blast
  have "filter (\<lambda>c. fn_of c = Sd_bus_detach_event \<or> fn_of c = Sd_bus_close_unref
                     \<or> fn_of c = Sd_bus_new) cs1 = []"
    using sh(2) by (simp add: filter_empty_conv)
  then show ?thesis using False unfolding cs(1) sh(1) by simp
qed

theorem setup_detach_close_new_witness:
  "deref_bus main_o (snd (setup_c [] main_o main_entry)) = Some 0
   \<and> filter (\<lambda>c. fn_of c = Sd_bus_detach_event \<or> fn_of c = Sd_bus_close_unref
                     \<or> fn_of c = Sd_bus_new)
        (new_calls (snd (setup_c [] main_o main_entry))
           (snd (setup_c [] main_o (snd (setup_c [] main_o main_entry)))))
      = [Call Sd_bus_detach_event (Some 0) 0, Call Sd_bus_close_unref (Some 0) 0,
         Call Sd_bus_new (Some 1) 0]"
proof -
  have a: "deref_bus main_o (snd (setup_c [] main_o main_entry)) = Some 0"
    by (simp add: eval_defs del: checks.simps(2))
  have t: "take 3 (new_calls (snd (setup_c [] main_o main_entry))
              (snd (setup_c [] main_o (snd (setup_c [] main_o main_entry))))) =
      [Call Sd_bus_detach_event (Some 0) 0, Call Sd_bus_close_unref (Some 0) 0,
       Call Sd_bus_new (Some 1) 0]"
    by (simp add: eval_defs del: checks.simps(2))
  have "\<not> result_at [] (length (trace (snd (setup_c [] main_o main_entry)))) < 0"
    by (simp add: result_at_def)
  with setup_detach_close_new[OF a, of "[]"] t a show ?thesis by simp
qed

text \<open>
  The claim as stated, for every handle that was ever attached, fails at the end of the
  process: with every library call succeeding and nothing delivered, \<open>main\<close> leaves its
  block with the handle of \<open>setup\<close> still attached, and the \<open>_cleanup_\<close> of \<open>bus\<close> closes it
  with no detach before.
\<close>

theorem exit_closes_attached_handle:
  "\<not> detach_before_close [] (trace (snd (main [] [])))"
  by (simp add: eval_defs del: checks.simps(2))

text \<open>
  Claim C4, as amended. A call of the getter with the name \<open>Example\<close> returns the status of
  appending the current value to the reply: it succeeds whenever that append does, the
  reply then ends with the value, and no error is set. A call with any other name fails
  with the negative status of the unknown-property error, stores that error with a
  message that carries the name between apostrophes, and leaves the replies alone. The
  getter is total: every call returns.
\<close>

theorem property_get_result:
  "(property = ''Example'' \<longrightarrow>
      fst (property_get env b path interface property reply userdata error w)
        = result_at env (length (trace w))
      \<and> (0 \<le> result_at env (length (trace w)) \<longrightarrow>
           replies (snd (property_get env b path interface property reply userdata error w)) reply
             = replies w reply @ [(''s'', example (objects w userdata))])
      \<and> errors (snd (property_get env b path interface property reply userdata error w))
          = errors w)
   \<and> (property \<noteq> ''Example'' \<longrightarrow>
      fst (property_get env b path interface property reply userdata error w) = - EBADR
      \<and> fst (property_get env b path interface property reply userdata error w) < 0
      \<and> errors (snd (property_get env b path interface property reply userdata error w)) error
          = Some (SD_BUS_ERROR_UNKNOWN_PROPERTY,
                  ''Unknown property '' @ [CHR 0x27] @ property @ [CHR 0x27])
      \<and> replies (snd (property_get env b path interface property reply userdata error w))
          = replies w)"
  by (simp add: getter_defs EBADR_def)

theorem property_get_result_witness:
  "fst (property_get [] None ''/org/freedesktop/ReconnectExample''
          ''org.freedesktop.ReconnectExample'' ''Example'' 0 main_o 0 main_entry) = 0
   \<and> replies (snd (property_get [] None ''/org/freedesktop/ReconnectExample''
          ''org.freedesktop.ReconnectExample'' ''Example'' 0 main_o 0 main_entry)) 0
       = [(''s'', ''example'')]
   \<and> fst (property_get [] None ''/org/freedesktop/ReconnectExample''
          ''org.freedesktop.ReconnectExample'' ''Other'' 0 main_o 0 main_entry) = - 53
   \<and> errors (snd (property_get [] None ''/org/freedesktop/ReconnectExample''
          ''org.freedesktop.ReconnectExample'' ''Other'' 0 main_o 0 main_entry)) 0
       = Some (''org.freedesktop.DBus.Error.UnknownProperty'',
               ''Unknown property '' @ [CHR 0x27] @ ''Other'' @ [CHR 0x27])"
  using property_get_result[of "''Example''" "[]" None "''/org/freedesktop/ReconnectExample''"
          "''org.freedesktop.ReconnectExample''" 0 main_o 0 main_entry]
        property_get_result[of "''Other''" "[]" None "''/org/freedesktop/ReconnectExample''"
          "''org.freedesktop.ReconnectExample''" 0 main_o 0 main_entry]
  by (simp add: result_at_def main_entry_def process_start_def main_o_def EBADR_def
      SD_BUS_ERROR_UNKNOWN_PROPERTY_def)

text \<open>
  The claim as stated fails when the library cannot append to the reply: the name is
  \<open>Example\<close>, the append returns \<open>-ENOMEM\<close> (\<open>-12\<close>), and so does the getter.
\<close>

theorem property_get_append_fails:
  "fst (property_get [-12] None ''/org/freedesktop/ReconnectExample''
          ''org.freedesktop.ReconnectExample'' ''Example'' 0 main_o 0 main_entry) = - 12
   \<and> replies (snd (property_get [-12] None ''/org/freedesktop/ReconnectExample''
          ''org.freedesktop.ReconnectExample'' ''Example'' 0 main_o 0 main_entry)) 0 = []"
  by (simp add: getter_defs result_at_def main_entry_def process_start_def)

text \<open>
  Claim C10, as amended. The comparison of the name is exact, byte by byte, and so
  case-sensitive: when the library's append does not fail, the getter succeeds if and
  only if the name is exactly \<open>Example\<close>; and the getter yields the unknown-property error
  if and only if the name is anything else.
\<close>

theorem property_name_exact:
  assumes "0 \<le> result_at env (length (trace w))"
  shows "((0 \<le> fst (property_get env b path interface property reply userdata error w))
            = (property = ''Example''))
         \<and> ((fst (property_get env b path interface property reply userdata error w) = - EBADR
              \<and> errors (snd (property_get env b path interface property reply userdata error w))
                   error
                 = Some (SD_BUS_ERROR_UNKNOWN_PROPERTY,
                         ''Unknown property '' @ [CHR 0x27] @ property @ [CHR 0x27]))
            = (property \<noteq> ''Example''))"
  using assms by (auto simp: getter_defs EBADR_def)

theorem property_name_exact_witness:
  "0 \<le> fst (property_get [] None ''/org/freedesktop/ReconnectExample''
               ''org.freedesktop.ReconnectExample'' ''Example'' 0 main_o 0 main_entry)
   \<and> \<not> 0 \<le> fst (property_get [] None ''/org/freedesktop/ReconnectExample''
               ''org.freedesktop.ReconnectExample'' ''example'' 0 main_o 0 main_entry)
   \<and> \<not> 0 \<le> fst (property_get [] None ''/org/freedesktop/ReconnectExample''
               ''org.freedesktop.ReconnectExample'' ''EXAMPLE'' 0 main_o 0 main_entry)
   \<and> \<not> 0 \<le> fst (property_get [] None ''/org/freedesktop/ReconnectExample''
               ''org.freedesktop.ReconnectExample'' ''Example '' 0 main_o 0 main_entry)"
proof -
  have h: "0 \<le> result_at [] (length (trace main_entry))" by (simp add: result_at_def)
  show ?thesis
    using property_name_exact[OF h, of None "''/org/freedesktop/ReconnectExample''"
            "''org.freedesktop.ReconnectExample''" "''Example''" 0 main_o 0]
          property_name_exact[OF h, of None "''/org/freedesktop/ReconnectExample''"
            "''org.freedesktop.ReconnectExample''" "''example''" 0 main_o 0]
          property_name_exact[OF h, of None "''/org/freedesktop/ReconnectExample''"
            "''org.freedesktop.ReconnectExample''" "''EXAMPLE''" 0 main_o 0]
          property_name_exact[OF h, of None "''/org/freedesktop/ReconnectExample''"
            "''org.freedesktop.ReconnectExample''" "''Example ''" 0 main_o 0]
    by simp
qed

text \<open>
  The claim as stated fails in the direction from the name to success: the name is exactly
  \<open>Example\<close>, the library's append returns \<open>-EPERM\<close> (\<open>-1\<close>), and the getter fails.
\<close>

theorem exact_name_without_success:
  "fst (property_get [-1] None ''/org/freedesktop/ReconnectExample''
          ''org.freedesktop.ReconnectExample'' ''Example'' 0 main_o 0 main_entry) < 0"
  by (simp add: getter_defs result_at_def main_entry_def process_start_def)

text \<open>
  Claim C8. A call of the getter leaves the objects (so the fields \<open>example\<close>, \<open>bus\<close> and
  \<open>event\<close> of its userdata), the bus and event variables, and the library's bus and
  event-loop objects as they were, whatever the name. Its status, the replies and the
  errors it produces are the same when the bus handle it is given, the \<open>bus\<close> and \<open>event\<close>
  fields of the object, the variables and the bus and loop objects are replaced by any
  others: it reads the value only.
\<close>

theorem property_get_frame:
  "objects (snd (property_get env b path interface property reply userdata error w)) = objects w
   \<and> bus_vars (snd (property_get env b path interface property reply userdata error w))
       = bus_vars w
   \<and> event_vars (snd (property_get env b path interface property reply userdata error w))
       = event_vars w
   \<and> buses (snd (property_get env b path interface property reply userdata error w)) = buses w
   \<and> loops (snd (property_get env b path interface property reply userdata error w)) = loops w
   \<and> fst (property_get env b' path interface property reply userdata error
            (w\<lparr>objects := (objects w)(userdata := (objects w userdata)\<lparr>bus := x, event := y\<rparr>),
               bus_vars := bv, event_vars := ev, buses := bs, loops := ls\<rparr>))
       = fst (property_get env b path interface property reply userdata error w)
   \<and> replies (snd (property_get env b' path interface property reply userdata error
            (w\<lparr>objects := (objects w)(userdata := (objects w userdata)\<lparr>bus := x, event := y\<rparr>),
               bus_vars := bv, event_vars := ev, buses := bs, loops := ls\<rparr>)))
       = replies (snd (property_get env b path interface property reply userdata error w))
   \<and> errors (snd (property_get env b' path interface property reply userdata error
            (w\<lparr>objects := (objects w)(userdata := (objects w userdata)\<lparr>bus := x, event := y\<rparr>),
               bus_vars := bv, event_vars := ev, buses := bs, loops := ls\<rparr>)))
       = errors (snd (property_get env b path interface property reply userdata error w))"
  by (simp add: getter_defs)

text \<open>
  Claim C3, as amended. When the loop has returned a non-negative status (a termination
  signal ended it), the one call \<open>main\<close> still makes before it returns releases the
  well-known name on the handle that the \<open>bus\<close> variable then holds, and the exit status is
  0 when that release returns a non-negative status and \<open>EXIT_FAILURE\<close> when it fails: the
  release is checked like every other call. The name released is
  \<open>org.freedesktop.ReconnectExample\<close>: when the release succeeds, the bus object behind the
  held handle has that name added to the names released on it, and when it fails no bus
  object changes.
\<close>

theorem main_exit_status:
  assumes "fst (main_through_loop env ns) = Inr ()"
  shows "new_calls (snd (main_through_loop env ns)) (snd (main_body env ns)) =
           [Call Sd_bus_release_name (bus_vars (snd (main_through_loop env ns)) main_bus)
              (result_at env (length (trace (snd (main_through_loop env ns)))))]
         \<and> fst (main env ns) =
             (if result_at env (length (trace (snd (main_through_loop env ns)))) < 0
              then EXIT_FAILURE else 0)
         \<and> (\<exists>e r. last (trace (snd (main_through_loop env ns))) = Call Sd_event_loop e r
                   \<and> 0 \<le> r)
         \<and> (\<forall>h. 0 \<le> result_at env (length (trace (snd (main_through_loop env ns)))) \<longrightarrow>
                  bus_vars (snd (main_through_loop env ns)) main_bus = Some h \<longrightarrow>
                  h < length (buses (snd (main_through_loop env ns))) \<longrightarrow>
                  released (buses (snd (main_body env ns)) ! h)
                    = released (buses (snd (main_through_loop env ns)) ! h)
                      @ [''org.freedesktop.ReconnectExample''])
         \<and> (result_at env (length (trace (snd (main_through_loop env ns)))) < 0 \<longrightarrow>
               buses (snd (main_body env ns)) = buses (snd (main_through_loop env ns)))"
proof -
  let ?w = "snd (main_through_loop env ns)"
  let ?rel = "\<lambda>w. sd_bus_release_name env (bus_vars w main_bus)
                ''org.freedesktop.ReconnectExample'' w"
  have pre: "checks (butlast (main_steps env ns)) main_entry = (Inr (), ?w)"
    using assms unfolding main_through_loop_def by (metis prod.collapse old.unit.exhaust)
  have body: "checks (main_steps env ns) main_entry = checks [(Sd_bus_release_name, ?rel)] ?w"
    by (subst main_steps_split, subst checks_append) (simp add: pre)
  have r: "fst (?rel ?w) = result_at env (length (trace ?w))"
    by (simp add: sd_bus_release_name_def)
  have first: "new_calls ?w (snd (main_body env ns)) =
           [Call Sd_bus_release_name (bus_vars ?w main_bus) (result_at env (length (trace ?w)))]
         \<and> fst (main env ns) =
             (if result_at env (length (trace ?w)) < 0 then EXIT_FAILURE else 0)
         \<and> (\<exists>e r. last (trace ?w) = Call Sd_event_loop e r \<and> 0 \<le> r)"
    unfolding main_def main_body_def body checks_single new_calls_def
    using main_through_loop_last[OF assms]
    by (simp add: r trace_release_name split: prod.splits)
  have b: "buses (snd (main_body env ns)) = buses (snd (?rel ?w))"
    unfolding main_body_def body checks_single by (simp split: prod.splits)
  have ok: "released (buses (snd (main_body env ns)) ! h)
              = released (buses ?w ! h) @ [''org.freedesktop.ReconnectExample'']"
    if "0 \<le> result_at env (length (trace ?w))" "bus_vars ?w main_bus = Some h"
      "h < length (buses ?w)" for h
    unfolding b using that by (simp add: sd_bus_release_name_def snd_lib_call on_bus_def)
  have failed: "buses (snd (main_body env ns)) = buses ?w"
    if "result_at env (length (trace ?w)) < 0"
    unfolding b using that by (simp add: sd_bus_release_name_def snd_lib_call)
  from first ok failed show ?thesis by blast
qed

theorem main_exit_status_witness:
  "fst (main_through_loop [] []) = Inr () \<and> fst (main [] []) = 0
   \<and> bus_vars (snd (main_through_loop [] [])) main_bus = Some 0
   \<and> released (buses (snd (main_through_loop [] [])) ! 0) = []
   \<and> released (buses (snd (main_body [] [])) ! 0) = [''org.freedesktop.ReconnectExample'']"
proof -
  have h: "fst (main_through_loop [] []) = Inr ()"
    by (simp add: main_eval_defs del: checks.simps(2))
  have v: "bus_vars (snd (main_through_loop [] [])) main_bus = Some 0"
    by (simp add: main_eval_defs del: checks.simps(2))
  have l: "0 < length (buses (snd (main_through_loop [] [])))"
    by (simp add: main_eval_defs del: checks.simps(2))
  have e: "released (buses (snd (main_through_loop [] [])) ! 0) = []"
    by (simp add: main_eval_defs del: checks.simps(2))
  have z: "0 \<le> result_at [] (length (trace (snd (main_through_loop [] []))))"
    by (simp add: result_at_def)
  note t = main_exit_status[OF h]
  from t z have s: "fst (main [] []) = 0" by simp
  from t z v l have "released (buses (snd (main_body [] [])) ! 0)
      = released (buses (snd (main_through_loop [] [])) ! 0)
        @ [''org.freedesktop.ReconnectExample'']" by blast
  with h s v e show ?thesis by simp
qed

text \<open>
  The claim as stated fails: every call up to the loop succeeds, the loop returns 0, the
  release of the name fails with \<open>-ENOTCONN\<close> (\<open>-107\<close>), and the exit status is 1.
\<close>

theorem release_failure_changes_exit_status:
  "fst (main_through_loop [0, 0, 0, 0, 0, 0, 0, 0, 0, 0, 0, 0, 0, 0, 0, -107] []) = Inr ()
   \<and> fst (main [0, 0, 0, 0, 0, 0, 0, 0, 0, 0, 0, 0, 0, 0, 0, -107] []) = 1"
  by (simp add: main_eval_defs del: checks.simps(2))

text \<open>
  Claim C1, at a failing input. In \<open>main\<close>'s call of \<open>setup\<close> the last step,
  \<open>sd_bus_attach_event\<close>, fails with \<open>-ENOMEM\<close> (\<open>-12\<close>). \<open>setup\<close> returns \<open>EXIT_FAILURE\<close>,
  which is positive, so \<open>check(setup(&o))\<close> lets \<open>main\<close> go on: it enters the loop, releases
  the name when the loop returns, and the process ends with status 0.
\<close>

theorem setup_failure_not_fatal:
  "fst (setup_c [0, 0, 0, 0, 0, 0, 0, 0, 0, 0, 0, 0, 0, -12] main_o
          (snd (checks (take 3 (main_steps [0, 0, 0, 0, 0, 0, 0, 0, 0, 0, 0, 0, 0, -12] []))
                  main_entry))) = EXIT_FAILURE
   \<and> fst (main [0, 0, 0, 0, 0, 0, 0, 0, 0, 0, 0, 0, 0, -12] []) = 0
   \<and> drop 13 (trace (snd (main [0, 0, 0, 0, 0, 0, 0, 0, 0, 0, 0, 0, 0, -12] []))) =
       [Call Sd_bus_attach_event (Some 0) (-12), Call Sd_event_loop (Some 0) 0,
        Call Sd_bus_release_name (Some 0) 0, Call Sd_event_unrefp (Some 0) 0,
        Call Sd_bus_flush_close_unrefp (Some 0) 0]"
  by (simp add: main_eval_defs del: checks.simps(2))

text \<open>
  Claim C2. In every state the program reaches, whatever the disconnects and the results
  of the library before, an invocation of \<open>setup\<close> on \<open>main\<close>'s object that completes with 0
  leaves the handle of one new bus object in the \<open>bus\<close> variable; that bus object is the
  only one that is open (any handle held before is closed); and exactly one object
  registration, one name request and one match registration for the Disconnected signal
  stand on it, with the bus attached to the event loop.
\<close>

theorem setup_leaves_one_of_each:
  assumes "reachable w" and "setup_c env main_o w = (0, w')"
  shows "bus_vars w' main_bus = Some (length (buses w))
         \<and> length (buses w') = Suc (length (buses w))
         \<and> (\<forall>k < length (buses w'). (\<not> bus_closed (buses w' ! k)) = (k = length (buses w)))
         \<and> length (vtables (buses w' ! length (buses w))) = 1
         \<and> length (name_requests (buses w' ! length (buses w))) = 1
         \<and> length (matches (buses w' ! length (buses w))) = 1
         \<and> buses w' ! length (buses w) = configured_bus main_o (event_vars w main_event)"
proof -
  have inv: "slot_inv w" using assms(1) by (rule reachable_slot_inv)
  then have o: "objects w main_o = \<lparr>example = ''example'', bus = main_bus, event = main_event\<rparr>"
    by (simp add: slot_inv_def)
  obtain a w1 where td: "teardown env main_o w = (a, w1)" by (cases "teardown env main_o w")
  have a: "a = Inr ()"
  proof (cases a)
    case (Inl r)
    with td teardown_Inl[of env main_o w r w1] assms(2) show ?thesis
      by (simp add: setup_c_def EXIT_FAILURE_def)
  qed simp
  note st = teardown_Inr_state[OF td[unfolded a]]
  obtain c w2 where ch: "checks (setup_steps env main_o) w1 = (c, w2)"
    by (cases "checks (setup_steps env main_o) w1")
  have c: "c = Inr ()"
  proof (cases c)
    case (Inl r)
    with ch checks_Inl[of "setup_steps env main_o" w1 r w2] td a assms(2) show ?thesis
      by (simp add: setup_c_def EXIT_FAILURE_def)
  qed simp
  have w': "w' = w2" using assms(2) td a ch c by (simp add: setup_c_def)
  have b: "building main_o w1 w' (configured_bus main_o (deref_event main_o w1))"
    using checks_setup_steps_Inr[OF ch[unfolded c]] w' by simp
  have closed1: "\<forall>k < length (buses w1). bus_closed (buses w1 ! k)"
    using st(5,6) inv o by (auto simp: slot_inv_def deref_bus_def)
  have ev: "deref_event main_o w1 = event_vars w main_event"
    using st(1,2) o by (simp add: deref_event_def)
  show ?thesis
    using b closed1 st(1,5) o unfolding ev
    by (auto simp: building_def nth_append configured_bus_def)
qed

theorem setup_leaves_one_of_each_witness:
  "reachable (snd (setup_c [] main_o main_entry))
   \<and> fst (setup_c [] main_o (snd (setup_c [] main_o main_entry))) = 0
   \<and> length (buses (snd (setup_c [] main_o main_entry))) = 1
   \<and> bus_vars (snd (setup_c [] main_o (snd (setup_c [] main_o main_entry)))) main_bus = Some 1
   \<and> length (buses (snd (setup_c [] main_o (snd (setup_c [] main_o main_entry))))) = 2
   \<and> bus_closed (buses (snd (setup_c [] main_o (snd (setup_c [] main_o main_entry)))) ! 0)
   \<and> \<not> bus_closed (buses (snd (setup_c [] main_o (snd (setup_c [] main_o main_entry)))) ! 1)
   \<and> length (matches (buses (snd (setup_c [] main_o (snd (setup_c [] main_o main_entry)))) ! 1))
       = 1"
proof -
  let ?w = "snd (setup_c [] main_o main_entry)"
  have r: "reachable ?w" by (intro reachable.setup_call reachable.entry)
  have f: "fst (setup_c [] main_o ?w) = 0"
    by (simp add: eval_defs del: checks.simps(2))
  have l: "length (buses ?w) = 1"
    by (simp add: eval_defs del: checks.simps(2))
  have p: "setup_c [] main_o ?w = (0, snd (setup_c [] main_o ?w))"
    using f by (metis prod.collapse)
  note t = setup_leaves_one_of_each[OF r p, unfolded l]
  from t have "\<not> bus_closed (buses (snd (setup_c [] main_o ?w)) ! 1)"
    and "bus_closed (buses (snd (setup_c [] main_o ?w)) ! 0)"
    by auto
  with t r f l show ?thesis by (simp add: configured_bus_def)
qed

text \<open>
  Claim C7. In every state the program reaches, so after any number of reconnect cycles,
  the value of the property in \<open>main\<close>'s object is the literal \<open>example\<close>: no operation
  writes it. Every read that succeeds is a read of \<open>Example\<close> and appends exactly that
  string to the reply, so all successful reads return the same value.
\<close>

theorem property_value_constant:
  assumes "reachable w"
  shows "example (objects w main_o) = ''example''
         \<and> (0 \<le> fst (property_get env b path interface property reply main_o error w) \<longrightarrow>
              property = ''Example''
              \<and> replies (snd (property_get env b path interface property reply main_o error w))
                   reply
                 = replies w reply @ [(''s'', ''example'')])"
proof -
  have "slot_inv w" using assms by (rule reachable_slot_inv)
  then have o: "example (objects w main_o) = ''example''" by (simp add: slot_inv_def)
  then show ?thesis by (auto simp: getter_defs EBADR_def)
qed

theorem property_value_constant_witness:
  "reachable (snd (setup_c [] main_o (snd (setup_c [] main_o main_entry))))
   \<and> example (objects (snd (setup_c [] main_o (snd (setup_c [] main_o main_entry)))) main_o)
       = ''example''
   \<and> 0 \<le> fst (property_get [] None ''/org/freedesktop/ReconnectExample''
                 ''org.freedesktop.ReconnectExample'' ''Example'' 0 main_o 0
                 (snd (setup_c [] main_o (snd (setup_c [] main_o main_entry)))))
   \<and> replies (snd (property_get [] None ''/org/freedesktop/ReconnectExample''
                 ''org.freedesktop.ReconnectExample'' ''Example'' 0 main_o 0
                 (snd (setup_c [] main_o (snd (setup_c [] main_o main_entry)))))) 0
       = replies (snd (setup_c [] main_o (snd (setup_c [] main_o main_entry)))) 0
         @ [(''s'', ''example'')]"
proof -
  let ?w = "snd (setup_c [] main_o (snd (setup_c [] main_o main_entry)))"
  have r: "reachable ?w" by (intro reachable.setup_call reachable.entry)
  have s: "0 \<le> fst (property_get [] None ''/org/freedesktop/ReconnectExample''
                 ''org.freedesktop.ReconnectExample'' ''Example'' 0 main_o 0 ?w)"
    by (simp add: getter_defs result_at_def)
  from property_value_constant[OF r, of "[]" None "''/org/freedesktop/ReconnectExample''"
         "''org.freedesktop.ReconnectExample''" "''Example''" 0 0] r s
  show ?thesis by simp
qed

end
